theory Spec2Isabelle
  imports Complex_Main "HOL-Library.Sublist" "HOL-Library.AList"
begin

section \<open>JSON values as the serverless function sees them\<close>

text \<open>
  The values that \<^verbatim>\<open>JSON.parse\<close> yields. A number is kept by its exact value; an
  object is the list of its own properties, each name once. The JavaScript value
  \<^verbatim>\<open>null\<close> is \<open>JNull\<close>: the null sentinel of the stage functions and the parsed text
  \<^verbatim>\<open>null\<close> are the same value, as they are at run time.
\<close>

datatype json =
    JNull
  | JBool bool
  | JNum rat
  | JStr string
  | JArr "json list"
  | JObj "(string \<times> json) list"

text \<open>JavaScript truthiness, as used by \<^verbatim>\<open>&&\<close>, \<^verbatim>\<open>||\<close> and \<^verbatim>\<open>if\<close>.\<close>

fun truthy :: "json \<Rightarrow> bool" where
  "truthy JNull = False"
| "truthy (JBool b) = b"
| "truthy (JNum n) = (n \<noteq> 0)"
| "truthy (JStr s) = (s \<noteq> [])"
| "truthy (JArr xs) = True"
| "truthy (JObj kvs) = True"

text \<open>
  Reading a property \<^verbatim>\<open>v.k\<close> of a non-null value; \<open>None\<close> is \<^verbatim>\<open>undefined\<close>. The
  property names read by this program (keywordAnalysis, summary, outline, x, facebook,
  linkedin, hashtags, actionPlan, password, operation, params) are not defined on arrays, strings, numbers
  or booleans, nor inherited by plain objects, so only an object's own properties answer.
\<close>

fun get_prop :: "json \<Rightarrow> string \<Rightarrow> json option" where
  "get_prop (JObj kvs) k = map_of kvs k"
| "get_prop v k = None"

definition truthy_prop :: "json \<Rightarrow> string \<Rightarrow> bool" where
  "truthy_prop v k = (case get_prop v k of None \<Rightarrow> False | Some w \<Rightarrow> truthy w)"

fun isArray :: "json \<Rightarrow> bool" where
  "isArray (JArr xs) = True"
| "isArray v = False"

text \<open>\<^verbatim>\<open>typeof v === 'object'\<close> for a truthy value: objects and arrays.\<close>

fun typeof_object :: "json \<Rightarrow> bool" where
  "typeof_object (JArr xs) = True"
| "typeof_object (JObj kvs) = True"
| "typeof_object v = False"


section \<open>The response normalizer\<close>

text \<open>
  Whitespace as the regular expression class \<^verbatim>\<open>\s\<close> sees it (tab, line feed, vertical
  tab, form feed, carriage return, space, no-break space), and as the JSON grammar
  does (space, tab, line feed, carriage return).
\<close>

definition js_space :: "char \<Rightarrow> bool" where
  "js_space c \<longleftrightarrow> c \<in> {CHR 0x09, CHR 0x0A, CHR 0x0B, CHR 0x0C, CHR 0x0D, CHR 0x20, CHR 0xA0}"

definition json_ws :: "char \<Rightarrow> bool" where
  "json_ws c \<longleftrightarrow> c \<in> {CHR 0x20, CHR 0x09, CHR 0x0A, CHR 0x0D}"

definition fence_open :: string where
  "fence_open = [CHR 0x60, CHR 0x60, CHR 0x60] @ ''json''"

definition fence_close :: string where
  "fence_close = [CHR 0x60, CHR 0x60, CHR 0x60]"

text \<open>
  \<^verbatim>\<open>jsonString.replace(/^```json\s*|```$/g, '')\<close>. Without the multiline flag the first
  alternative can match at index 0 only and the second only where the text ends, so the
  replacement removes an opening marker with the whitespace after it, and then three
  backquotes that end what is left.
\<close>

definition strip_fence :: "string \<Rightarrow> string" where
  "strip_fence jsonString =
     (let r = (if prefix fence_open jsonString
               then dropWhile js_space (drop (length fence_open) jsonString)
               else jsonString)
      in if suffix fence_close r then take (length r - length fence_close) r else r)"

text \<open>
  \<open>safeJsonParse\<close>. The platform's \<^verbatim>\<open>JSON.parse\<close> is the parameter \<open>JSON_parse\<close>;
  \<open>None\<close> is its SyntaxError, which the \<^verbatim>\<open>catch\<close> turns into null.
\<close>

type_synonym parser = "string \<Rightarrow> json option"

definition safeJsonParse :: "parser \<Rightarrow> string \<Rightarrow> json" where
  "safeJsonParse JSON_parse jsonString =
     (case JSON_parse (strip_fence jsonString) of
        None \<Rightarrow> JNull
      | Some v \<Rightarrow> v)"

text \<open>\<^verbatim>\<open>response.text || ''\<close>: an absent text and an empty one both give the empty string.\<close>

definition text_or_empty :: "string option \<Rightarrow> string" where
  "text_or_empty t = (case t of None \<Rightarrow> [] | Some s \<Rightarrow> s)"


section \<open>The stage functions, after the oracle has answered\<close>

text \<open>
  Each structured stage parses the oracle's text and returns the parsed value or null,
  by the conditional expression of its last line. The free-text stages return the text
  or null.
\<close>

definition analyzeKeywords_result :: "parser \<Rightarrow> string option \<Rightarrow> json" where
  "analyzeKeywords_result JSON_parse t =
     (let result = safeJsonParse JSON_parse (text_or_empty t)
      in if truthy result \<and> truthy_prop result ''keywordAnalysis'' \<and> truthy_prop result ''summary''
         then result else JNull)"

definition findTopCompetitorArticles_result :: "parser \<Rightarrow> string option \<Rightarrow> json" where
  "findTopCompetitorArticles_result JSON_parse t =
     (let result = safeJsonParse JSON_parse (text_or_empty t)
      in if truthy result \<and> isArray result then result else JNull)"

definition createCompositeArticle_result :: "parser \<Rightarrow> string option \<Rightarrow> json" where
  "createCompositeArticle_result JSON_parse t =
     (let result = safeJsonParse JSON_parse (text_or_empty t)
      in if truthy result \<and> typeof_object result \<and> \<not> isArray result \<and> truthy_prop result ''outline''
         then result else JNull)"

definition generateFullArticle_result :: "string option \<Rightarrow> json" where
  "generateFullArticle_result t =
     (case t of None \<Rightarrow> JNull | Some s \<Rightarrow> if s = [] then JNull else JStr s)"

definition generateSocialMediaPosts_result :: "parser \<Rightarrow> string option \<Rightarrow> json" where
  "generateSocialMediaPosts_result JSON_parse t =
     (let result = safeJsonParse JSON_parse (text_or_empty t)
      in if truthy result \<and> truthy_prop result ''x'' \<and> truthy_prop result ''facebook''
            \<and> truthy_prop result ''linkedin'' \<and> truthy_prop result ''hashtags''
         then result else JNull)"

definition reviseFullArticle_result :: "string option \<Rightarrow> json" where
  "reviseFullArticle_result t =
     (case t of None \<Rightarrow> JNull | Some s \<Rightarrow> if s = [] then JNull else JStr s)"

definition analyzePerformanceData_result :: "parser \<Rightarrow> string option \<Rightarrow> json" where
  "analyzePerformanceData_result JSON_parse t =
     (let result = safeJsonParse JSON_parse (text_or_empty t)
      in if truthy result \<and> truthy_prop result ''summary'' \<and> truthy_prop result ''actionPlan''
         then result else JNull)"


section \<open>The stage functions and the oracle\<close>

text \<open>
  What a \<^verbatim>\<open>throw\<close> carries: an \<^verbatim>\<open>Error\<close> object with its message, or any other value.
\<close>

datatype thrown = Error string | NotAnError

datatype stage =
    AnalyzeKeywords
  | FindTopCompetitorArticles
  | CreateCompositeArticle
  | GenerateFullArticle
  | GenerateSocialMediaPosts
  | ReviseFullArticle
  | AnalyzePerformanceData

text \<open>
  The oracle. A stage function is given arguments read from the parameter bag, builds
  its prompt from them and awaits \<^verbatim>\<open>ai.models.generateContent\<close>; the prompt is a
  function of the stage and of the bag, so the oracle is asked with these two. It
  answers \<open>Inr t\<close> with \<open>t\<close> the \<^verbatim>\<open>text\<close> of the response (\<open>None\<close> when the
  response has none), or \<open>Inl e\<close> when something is thrown inside the stage function:
  mapping over an argument that is no list while building the prompt, or a rejected
  call. Reading the arguments from an absent bag is the handler's and is modelled there.
\<close>

type_synonym completion = "stage \<Rightarrow> json option \<Rightarrow> thrown + string option"

definition analyzeKeywords :: "parser \<Rightarrow> completion \<Rightarrow> json option \<Rightarrow> thrown + json" where
  "analyzeKeywords JSON_parse ai params =
     (case ai AnalyzeKeywords params of
        Inl e \<Rightarrow> Inl e
      | Inr t \<Rightarrow> Inr (analyzeKeywords_result JSON_parse t))"

definition findTopCompetitorArticles :: "parser \<Rightarrow> completion \<Rightarrow> json option \<Rightarrow> thrown + json" where
  "findTopCompetitorArticles JSON_parse ai params =
     (case ai FindTopCompetitorArticles params of
        Inl e \<Rightarrow> Inl e
      | Inr t \<Rightarrow> Inr (findTopCompetitorArticles_result JSON_parse t))"

definition createCompositeArticle :: "parser \<Rightarrow> completion \<Rightarrow> json option \<Rightarrow> thrown + json" where
  "createCompositeArticle JSON_parse ai params =
     (case ai CreateCompositeArticle params of
        Inl e \<Rightarrow> Inl e
      | Inr t \<Rightarrow> Inr (createCompositeArticle_result JSON_parse t))"

definition generateFullArticle :: "completion \<Rightarrow> json option \<Rightarrow> thrown + json" where
  "generateFullArticle ai params =
     (case ai GenerateFullArticle params of
        Inl e \<Rightarrow> Inl e
      | Inr t \<Rightarrow> Inr (generateFullArticle_result t))"

definition generateSocialMediaPosts :: "parser \<Rightarrow> completion \<Rightarrow> json option \<Rightarrow> thrown + json" where
  "generateSocialMediaPosts JSON_parse ai params =
     (case ai GenerateSocialMediaPosts params of
        Inl e \<Rightarrow> Inl e
      | Inr t \<Rightarrow> Inr (generateSocialMediaPosts_result JSON_parse t))"

definition reviseFullArticle :: "completion \<Rightarrow> json option \<Rightarrow> thrown + json" where
  "reviseFullArticle ai params =
     (case ai ReviseFullArticle params of
        Inl e \<Rightarrow> Inl e
      | Inr t \<Rightarrow> Inr (reviseFullArticle_result t))"

definition analyzePerformanceData :: "parser \<Rightarrow> completion \<Rightarrow> json option \<Rightarrow> thrown + json" where
  "analyzePerformanceData JSON_parse ai params =
     (case ai AnalyzePerformanceData params of
        Inl e \<Rightarrow> Inl e
      | Inr t \<Rightarrow> Inr (analyzePerformanceData_result JSON_parse t))"


section \<open>The transport endpoint\<close>

text \<open>
  The environment of the serverless function; a request, with its method and its parsed
  body (\<open>None\<close> when the request has none); and the response, with the status and the
  JSON body that \<^verbatim>\<open>res.status(..).json(..)\<close> sends.
\<close>

record env =
  APP_PASSWORD :: "string option"
  API_KEY :: "string option"

record request =
  http_method :: string
  req_body :: "json option"

record response =
  status :: nat
  body :: json

text \<open>
  What the handler leaves behind: a response that was sent, or an exception that no
  \<^verbatim>\<open>catch\<close> of the handler takes, so that the handler itself sends nothing.
\<close>

datatype reply = Sent response | Uncaught thrown

definition respond :: "nat \<Rightarrow> json \<Rightarrow> response" where
  "respond code j = \<lparr>status = code, body = j\<rparr>"

definition error_body :: "string \<Rightarrow> json" where
  "error_body msg = JObj [(''error'', JStr msg)]"

definition data_body :: "json \<Rightarrow> json" where
  "data_body d = JObj [(''data'', d)]"

text \<open>An environment variable is falsy when it is unset or empty.\<close>

definition env_unset :: "string option \<Rightarrow> bool" where
  "env_unset v \<longleftrightarrow> (case v of None \<Rightarrow> True | Some s \<Rightarrow> s = [])"

text \<open>
  A value is absent when it is \<^verbatim>\<open>undefined\<close> or \<^verbatim>\<open>null\<close>. Reading a property of an
  absent value throws a TypeError; its message is the engine's, given here by a
  parameter of the handler as a function of the value and of the property. Reading a
  property of any other value gives the property or \<^verbatim>\<open>undefined\<close>.
\<close>

definition absent :: "json option \<Rightarrow> bool" where
  "absent v \<longleftrightarrow> v = None \<or> v = Some JNull"

type_synonym type_errors = "json option \<Rightarrow> string \<Rightarrow> string"

definition read_field :: "json option \<Rightarrow> string \<Rightarrow> json option" where
  "read_field v k = (case v of None \<Rightarrow> None | Some j \<Rightarrow> get_prop j k)"

text \<open>\<^verbatim>\<open>const { operation, params } = req.body\<close>, for a body that is not absent.\<close>

definition operation :: "request \<Rightarrow> json option" where
  "operation req = read_field (req_body req) ''operation''"

definition params :: "request \<Rightarrow> json option" where
  "params req = read_field (req_body req) ''params''"

text \<open>
  The \<^verbatim>\<open>verifyPassword\<close> branch. Destructuring the password out of an absent bag
  throws, and the branch's own \<^verbatim>\<open>catch\<close> answers 500.
\<close>

definition verifyPassword :: "env \<Rightarrow> json option \<Rightarrow> response" where
  "verifyPassword e ps =
     (if env_unset (APP_PASSWORD e) then respond 200 (data_body (JObj [(''success'', JBool False)]))
      else (case ps of
              None \<Rightarrow> respond 500 (error_body ''Internal server error during authentication.'')
            | Some JNull \<Rightarrow> respond 500 (error_body ''Internal server error during authentication.'')
            | Some p \<Rightarrow>
                respond 200 (data_body (JObj [(''success'',
                  JBool (get_prop p ''password'' = map_option JStr (APP_PASSWORD e)))]))))"

text \<open>
  A branch of the \<^verbatim>\<open>switch\<close> reads the arguments of its stage function from the bag
  before it calls the function; \<open>k\<close> is the argument read first. With an absent bag
  this read throws.
\<close>

definition reading :: "type_errors \<Rightarrow> json option \<Rightarrow> string \<Rightarrow> (json option \<Rightarrow> thrown + json) \<Rightarrow> thrown + json" where
  "reading type_error ps k f = (if absent ps then Inl (Error (type_error ps k)) else f ps)"

text \<open>The \<^verbatim>\<open>switch\<close> over the operation name; \<open>None\<close> is its \<^verbatim>\<open>default\<close> branch.\<close>

definition dispatch ::
    "type_errors \<Rightarrow> parser \<Rightarrow> completion \<Rightarrow> json option \<Rightarrow> json option \<Rightarrow> (thrown + json) option" where
  "dispatch type_error JSON_parse ai op ps =
     (if op = Some (JStr ''analyzeKeywords'')
        then Some (reading type_error ps ''userUrl'' (analyzeKeywords JSON_parse ai))
      else if op = Some (JStr ''findTopCompetitorArticles'')
        then Some (reading type_error ps ''topic'' (findTopCompetitorArticles JSON_parse ai))
      else if op = Some (JStr ''createCompositeArticle'')
        then Some (reading type_error ps ''topic'' (createCompositeArticle JSON_parse ai))
      else if op = Some (JStr ''generateFullArticle'')
        then Some (reading type_error ps ''draft'' (generateFullArticle ai))
      else if op = Some (JStr ''generateSocialMediaPosts'')
        then Some (reading type_error ps ''article'' (generateSocialMediaPosts JSON_parse ai))
      else if op = Some (JStr ''reviseFullArticle'')
        then Some (reading type_error ps ''currentArticle'' (reviseFullArticle ai))
      else if op = Some (JStr ''analyzePerformanceData'')
        then Some (reading type_error ps ''articleUrl'' (analyzePerformanceData JSON_parse ai))
      else None)"

definition thrown_message :: "thrown \<Rightarrow> string" where
  "thrown_message e = (case e of Error m \<Rightarrow> m | NotAnError \<Rightarrow> ''Unknown error'')"

text \<open>
  The handler. The body is destructured outside every \<^verbatim>\<open>try\<close>: with an absent body
  the TypeError leaves the handler and nothing is sent.
\<close>

definition handler :: "type_errors \<Rightarrow> parser \<Rightarrow> completion \<Rightarrow> env \<Rightarrow> request \<Rightarrow> reply" where
  "handler type_error JSON_parse ai e req =
     (if http_method req \<noteq> ''POST'' then Sent (respond 405 (error_body ''Method Not Allowed''))
      else if absent (req_body req) then Uncaught (Error (type_error (req_body req) ''operation''))
      else if operation req = Some (JStr ''verifyPassword'') then Sent (verifyPassword e (params req))
      else if env_unset (API_KEY e)
        then Sent (respond 500 (error_body ''API_KEY environment variable not set on the server''))
      else (case dispatch type_error JSON_parse ai (operation req) (params req) of
              None \<Rightarrow> Sent (respond 400 (error_body ''Invalid operation specified.''))
            | Some (Inl ex) \<Rightarrow>
                Sent (respond 500 (error_body (''An internal server error occurred: '' @ thrown_message ex)))
            | Some (Inr d) \<Rightarrow> Sent (respond 200 (data_body d))))"


section \<open>A reference reader of JSON texts\<close>

text \<open>
  \<^verbatim>\<open>JSON.parse\<close> belongs to the platform, and the stage functions take it as a
  parameter. To run them on concrete texts, \<open>json_parse\<close> reads the JSON grammar
  restricted to integer numbers and to strings without escapes, and returns on these
  texts the value \<^verbatim>\<open>JSON.parse\<close> returns: whitespace around tokens is skipped, a
  repeated key keeps its first position and its last value.
\<close>

datatype token =
    LBrace | RBrace | LBracket | RBracket | Colon | Comma
  | TString string | TNumber int | TTrue | TFalse | TNull

definition is_digit :: "char \<Rightarrow> bool" where
  "is_digit c \<longleftrightarrow> c \<in> set ''0123456789''"

definition string_char :: "char \<Rightarrow> bool" where
  "string_char c \<longleftrightarrow> c \<noteq> CHR 0x22 \<and> c \<noteq> CHR 0x5C \<and> 32 \<le> (of_char c :: nat)"

fun strip_prefix :: "string \<Rightarrow> string \<Rightarrow> string option" where
  "strip_prefix [] s = Some s"
| "strip_prefix (p # ps) [] = None"
| "strip_prefix (p # ps) (c # cs) = (if p = c then strip_prefix ps cs else None)"

definition digits_value :: "string \<Rightarrow> int" where
  "digits_value ds = foldl (\<lambda>a d. 10 * a + (int (of_char d) - 48)) 0 ds"

text \<open>The digits of a number, after its sign; a fraction or an exponent is not read.\<close>

definition lex_digits :: "bool \<Rightarrow> string \<Rightarrow> (token \<times> string) option" where
  "lex_digits neg u =
     (let ds = takeWhile is_digit u; r = dropWhile is_digit u
      in if ds = [] \<or> (hd ds = CHR ''0'' \<and> 1 < length ds) \<or> (r \<noteq> [] \<and> hd r \<in> set ''.eE'')
         then None
         else Some (TNumber (if neg then - digits_value ds else digits_value ds), r))"

text \<open>The characters of a string, after its opening quote.\<close>

definition lex_string :: "string \<Rightarrow> (token \<times> string) option" where
  "lex_string cs =
     (case dropWhile string_char cs of
        [] \<Rightarrow> None
      | q # r \<Rightarrow> if q = CHR 0x22 then Some (TString (takeWhile string_char cs), r) else None)"

definition lex_literal :: "token \<Rightarrow> string \<Rightarrow> string \<Rightarrow> (token \<times> string) option" where
  "lex_literal t p cs = map_option (Pair t) (strip_prefix p cs)"

fun next_token :: "string \<Rightarrow> (token \<times> string) option" where
  "next_token [] = None"
| "next_token (c # cs) =
     (if c = CHR ''{'' then Some (LBrace, cs)
      else if c = CHR ''}'' then Some (RBrace, cs)
      else if c = CHR ''['' then Some (LBracket, cs)
      else if c = CHR '']'' then Some (RBracket, cs)
      else if c = CHR '':'' then Some (Colon, cs)
      else if c = CHR '','' then Some (Comma, cs)
      else if c = CHR 0x22 then lex_string cs
      else if c = CHR ''-'' then lex_digits True cs
      else if is_digit c then lex_digits False (c # cs)
      else if c = CHR ''t'' then lex_literal TTrue ''rue'' cs
      else if c = CHR ''f'' then lex_literal TFalse ''alse'' cs
      else if c = CHR ''n'' then lex_literal TNull ''ull'' cs
      else None)"

lemma strip_prefix_eq: "strip_prefix p s = Some r \<Longrightarrow> s = p @ r"
  by (induction p s rule: strip_prefix.induct) (auto split: if_splits)

lemma lex_literal_eq: "lex_literal t p cs = Some (t', r) \<Longrightarrow> cs = p @ r"
  by (auto simp: lex_literal_def dest: strip_prefix_eq)

lemma lex_string_eq:
  "lex_string cs = Some (t, r) \<Longrightarrow> cs = takeWhile string_char cs @ CHR 0x22 # r"
proof -
  assume a: "lex_string cs = Some (t, r)"
  then have "dropWhile string_char cs = CHR 0x22 # r"
    by (auto simp: lex_string_def split: list.splits if_splits)
  then show ?thesis by (metis takeWhile_dropWhile_id)
qed

lemma lex_digits_eq:
  "lex_digits neg u = Some (t, r) \<Longrightarrow>
     u = takeWhile is_digit u @ r \<and> takeWhile is_digit u \<noteq> []"
  by (auto simp: lex_digits_def Let_def split: if_splits)

text \<open>Every token is a non-empty prefix of the text it is read from.\<close>

lemma next_token_prefix: "next_token s = Some (t, r) \<Longrightarrow> \<exists>p. s = p @ r \<and> p \<noteq> []"
proof (cases s)
  case Nil
  then show "next_token s = Some (t, r) \<Longrightarrow> \<exists>p. s = p @ r \<and> p \<noteq> []" by simp
next
  case (Cons c cs)
  assume a: "next_token s = Some (t, r)"
  consider (punct) "r = cs"
    | (str) "lex_string cs = Some (t, r)"
    | (neg) "lex_digits True cs = Some (t, r)"
    | (num) "lex_digits False (c # cs) = Some (t, r)"
    | (lit) t' p where "lex_literal t' p cs = Some (t, r)"
    using a unfolding Cons next_token.simps
    by (simp split: if_splits)
  then show ?thesis
  proof cases
    case punct then show ?thesis by (simp add: Cons)
  next
    case str
    from lex_string_eq[OF str] have "s = (c # takeWhile string_char cs @ [CHR 0x22]) @ r"
      by (simp add: Cons)
    then show ?thesis by blast
  next
    case neg
    from lex_digits_eq[OF neg] have "s = (c # takeWhile is_digit cs) @ r" by (simp add: Cons)
    then show ?thesis by blast
  next
    case num
    from lex_digits_eq[OF num] show ?thesis unfolding Cons by blast
  next
    case lit
    from lex_literal_eq[OF lit] have "s = (c # p) @ r" by (simp add: Cons)
    then show ?thesis by blast
  qed
qed

lemma next_token_length: "next_token s = Some (t, r) \<Longrightarrow> length r < length s"
proof -
  assume "next_token s = Some (t, r)"
  then obtain p where "s = p @ r" and "p \<noteq> []" by (blast dest: next_token_prefix)
  then show ?thesis by simp
qed

function tokenize :: "string \<Rightarrow> token list option" where
  "tokenize s =
     (case dropWhile json_ws s of
        [] \<Rightarrow> Some []
      | c # cs \<Rightarrow>
          (case next_token (c # cs) of
             None \<Rightarrow> None
           | Some (t, r) \<Rightarrow> map_option ((#) t) (tokenize r)))"
  by pat_completeness auto
termination
proof (relation "measure length")
  show "wf (measure length)" by simp
next
  fix s :: string and c cs x t r
  assume d: "dropWhile json_ws s = c # cs" and n: "next_token (c # cs) = Some x" and x: "(t, r) = x"
  from n x have "length r < length (c # cs)" by (metis next_token_length)
  also have "\<dots> = length (dropWhile json_ws s)" by (simp add: d)
  also have "\<dots> \<le> length s" by (rule length_dropWhile_le)
  finally show "(r, s) \<in> measure length" by simp
qed

declare tokenize.simps [simp del]

fun parse_value :: "nat \<Rightarrow> token list \<Rightarrow> (json \<times> token list) option"
  and parse_elements :: "nat \<Rightarrow> json list \<Rightarrow> token list \<Rightarrow> (json \<times> token list) option"
  and parse_members :: "nat \<Rightarrow> (string \<times> json) list \<Rightarrow> token list \<Rightarrow> (json \<times> token list) option"
where
  "parse_value 0 ts = None"
| "parse_value (Suc n) [] = None"
| "parse_value (Suc n) (t # ts) =
     (case t of
        TNull \<Rightarrow> Some (JNull, ts)
      | TTrue \<Rightarrow> Some (JBool True, ts)
      | TFalse \<Rightarrow> Some (JBool False, ts)
      | TNumber i \<Rightarrow> Some (JNum (of_int i), ts)
      | TString s \<Rightarrow> Some (JStr s, ts)
      | LBracket \<Rightarrow> (case ts of RBracket # r \<Rightarrow> Some (JArr [], r) | _ \<Rightarrow> parse_elements n [] ts)
      | LBrace \<Rightarrow> (case ts of RBrace # r \<Rightarrow> Some (JObj [], r) | _ \<Rightarrow> parse_members n [] ts)
      | _ \<Rightarrow> None)"
| "parse_elements 0 vs ts = None"
| "parse_elements (Suc n) vs ts =
     (case parse_value n ts of
        None \<Rightarrow> None
      | Some (v, r) \<Rightarrow>
          (case r of
             Comma # r' \<Rightarrow> parse_elements n (vs @ [v]) r'
           | RBracket # r' \<Rightarrow> Some (JArr (vs @ [v]), r')
           | _ \<Rightarrow> None))"
| "parse_members 0 kvs ts = None"
| "parse_members (Suc n) kvs ts =
     (case ts of
        TString k # Colon # r \<Rightarrow>
          (case parse_value n r of
             None \<Rightarrow> None
           | Some (v, r') \<Rightarrow>
               (case r' of
                  Comma # r'' \<Rightarrow> parse_members n (AList.update k v kvs) r''
                | RBrace # r'' \<Rightarrow> Some (JObj (AList.update k v kvs), r'')
                | _ \<Rightarrow> None))
      | _ \<Rightarrow> None)"

definition json_parse :: parser where
  "json_parse s =
     (case tokenize s of
        None \<Rightarrow> None
      | Some ts \<Rightarrow>
          (case parse_value (2 * length ts + 1) ts of
             Some (v, []) \<Rightarrow> Some v
           | _ \<Rightarrow> None))"


text \<open>The characters that can begin a token, and a token's rest followed by more text.\<close>

definition token_start :: "char \<Rightarrow> bool" where
  "token_start c \<longleftrightarrow> c \<in> set ''{}[]:,-tfn0123456789'' \<or> c = CHR 0x22"

definition then_more :: "string \<Rightarrow> (token \<times> string) option \<Rightarrow> (token \<times> string) option" where
  "then_more ws x = map_option (\<lambda>(t, r). (t, r @ ws)) x"


section \<open>Tables read off the code, and fixed oracles\<close>

text \<open>The name under which the \<^verbatim>\<open>switch\<close> of the handler reaches each stage function.\<close>

definition operation_name :: "stage \<Rightarrow> string" where
  "operation_name st =
     (case st of
        AnalyzeKeywords \<Rightarrow> ''analyzeKeywords''
      | FindTopCompetitorArticles \<Rightarrow> ''findTopCompetitorArticles''
      | CreateCompositeArticle \<Rightarrow> ''createCompositeArticle''
      | GenerateFullArticle \<Rightarrow> ''generateFullArticle''
      | GenerateSocialMediaPosts \<Rightarrow> ''generateSocialMediaPosts''
      | ReviseFullArticle \<Rightarrow> ''reviseFullArticle''
      | AnalyzePerformanceData \<Rightarrow> ''analyzePerformanceData'')"

text \<open>What a stage makes of the oracle's text, and the stage function as a whole.\<close>

definition stage_result :: "parser \<Rightarrow> stage \<Rightarrow> string option \<Rightarrow> json" where
  "stage_result JSON_parse st t =
     (case st of
        AnalyzeKeywords \<Rightarrow> analyzeKeywords_result JSON_parse t
      | FindTopCompetitorArticles \<Rightarrow> findTopCompetitorArticles_result JSON_parse t
      | CreateCompositeArticle \<Rightarrow> createCompositeArticle_result JSON_parse t
      | GenerateFullArticle \<Rightarrow> generateFullArticle_result t
      | GenerateSocialMediaPosts \<Rightarrow> generateSocialMediaPosts_result JSON_parse t
      | ReviseFullArticle \<Rightarrow> reviseFullArticle_result t
      | AnalyzePerformanceData \<Rightarrow> analyzePerformanceData_result JSON_parse t)"

definition run_stage :: "parser \<Rightarrow> completion \<Rightarrow> stage \<Rightarrow> json option \<Rightarrow> thrown + json" where
  "run_stage JSON_parse ai st ps =
     (case st of
        AnalyzeKeywords \<Rightarrow> analyzeKeywords JSON_parse ai ps
      | FindTopCompetitorArticles \<Rightarrow> findTopCompetitorArticles JSON_parse ai ps
      | CreateCompositeArticle \<Rightarrow> createCompositeArticle JSON_parse ai ps
      | GenerateFullArticle \<Rightarrow> generateFullArticle ai ps
      | GenerateSocialMediaPosts \<Rightarrow> generateSocialMediaPosts JSON_parse ai ps
      | ReviseFullArticle \<Rightarrow> reviseFullArticle ai ps
      | AnalyzePerformanceData \<Rightarrow> analyzePerformanceData JSON_parse ai ps)"

text \<open>
  The top-level fields that the last line of each structured stage tests, and the fields
  that the stage's \<^verbatim>\<open>responseSchema\<close> and its result type in \<^verbatim>\<open>types.ts\<close> declare as
  required. The result of the competitor stage is a list and has no fields.
\<close>

definition validated_fields :: "stage \<Rightarrow> string list" where
  "validated_fields st =
     (case st of
        AnalyzeKeywords \<Rightarrow> [''keywordAnalysis'', ''summary'']
      | CreateCompositeArticle \<Rightarrow> [''outline'']
      | GenerateSocialMediaPosts \<Rightarrow> [''x'', ''facebook'', ''linkedin'', ''hashtags'']
      | AnalyzePerformanceData \<Rightarrow> [''summary'', ''actionPlan'']
      | _ \<Rightarrow> [])"

definition required_fields :: "stage \<Rightarrow> string list" where
  "required_fields st =
     (case st of
        AnalyzeKeywords \<Rightarrow> [''keywordAnalysis'', ''summary'']
      | CreateCompositeArticle \<Rightarrow> [''outline'', ''introduction'']
      | GenerateSocialMediaPosts \<Rightarrow> [''x'', ''facebook'', ''linkedin'', ''hashtags'']
      | AnalyzePerformanceData \<Rightarrow>
          [''summary'', ''keyMetrics'', ''trafficSources'', ''keywordPerformance'', ''actionPlan'']
      | _ \<Rightarrow> [])"

text \<open>An oracle that always answers with the same text, and one that always throws.\<close>

definition answering :: "string option \<Rightarrow> completion" where
  "answering t st ps = Inr t"

definition throwing :: "thrown \<Rightarrow> completion" where
  "throwing ex st ps = Inl ex"

text \<open>
  The invariant that the specification states for an article draft: the outline has at
  least one section and every section has at least one point.
\<close>

definition section_has_points :: "json \<Rightarrow> bool" where
  "section_has_points s = (case get_prop s ''points'' of Some (JArr ps) \<Rightarrow> ps \<noteq> [] | _ \<Rightarrow> False)"

definition draft_invariant :: "json \<Rightarrow> bool" where
  "draft_invariant d =
     (case get_prop d ''outline'' of
        None \<Rightarrow> False
      | Some ol \<Rightarrow>
          (case get_prop ol ''sections'' of
             Some (JArr secs) \<Rightarrow> secs \<noteq> [] \<and> list_all section_has_points secs
           | _ \<Rightarrow> False))"


section \<open>Code fences and the JSON grammar\<close>

text \<open>
  A text inside the fence that \<open>strip_fence\<close> looks for: the opening marker, any
  whitespace, the text, JSON whitespace, and the closing marker at the very end.
\<close>

definition fenced :: "string \<Rightarrow> string \<Rightarrow> string \<Rightarrow> string" where
  "fenced ws1 s ws2 = fence_open @ ws1 @ s @ ws2 @ fence_close"

text \<open>
  What the stage functions may rely on in \<^verbatim>\<open>JSON.parse\<close>, by the JSON grammar: whitespace
  around a text does not matter, and a text that parses begins, after its whitespace,
  with the first character of a value, which is neither whitespace of any kind nor a
  backquote, and does not end with a backquote.
\<close>

definition reads_json :: "parser \<Rightarrow> bool" where
  "reads_json P \<longleftrightarrow>
     (\<forall>ws1 s ws2. list_all json_ws ws1 \<and> list_all json_ws ws2 \<longrightarrow> P (ws1 @ s @ ws2) = P s)
     \<and> (\<forall>s v. P s = Some v \<longrightarrow>
           (\<exists>c cs. dropWhile json_ws s = c # cs \<and> \<not> js_space c \<and> c \<noteq> CHR 0x60)
           \<and> last s \<noteq> CHR 0x60)"

text \<open>The stages that ask the oracle for JSON.\<close>

definition structured :: "stage \<Rightarrow> bool" where
  "structured st \<longleftrightarrow> st \<noteq> GenerateFullArticle \<and> st \<noteq> ReviseFullArticle"

text \<open>
  A configured environment; a POST request for an operation, with or without a bag; the
  bags of two operations; and the messages of one engine.
\<close>

definition sample_env :: env where
  "sample_env = \<lparr>APP_PASSWORD = Some ''secret'', API_KEY = Some ''key''\<rparr>"

definition post :: "string \<Rightarrow> json option \<Rightarrow> request" where
  "post name ps =
     \<lparr>http_method = ''POST'',
      req_body = Some (JObj ((''operation'', JStr name) #
                    (case ps of None \<Rightarrow> [] | Some p \<Rightarrow> [(''params'', p)])))\<rparr>"

definition draft_bag :: json where
  "draft_bag = JObj [(''draft'',
     JObj [(''outline'', JObj [(''title'', JStr ''T''), (''sections'', JArr [])]),
           (''introduction'', JStr ''I'')])]"

definition revision_bag :: json where
  "revision_bag = JObj [(''currentArticle'', JStr ''# Title''), (''revisionPrompt'', JStr ''shorter'')]"

definition sample_type_error :: type_errors where
  "sample_type_error v k =
     ''Cannot read properties of '' @ (if v = None then ''undefined'' else ''null'')
     @ '' (reading '' @ [CHR 0x27] @ k @ [CHR 0x27] @ '')''"

text \<open>The argument that the handler reads first for each stage.\<close>

definition first_argument :: "stage \<Rightarrow> string" where
  "first_argument st =
     (case st of
        AnalyzeKeywords \<Rightarrow> ''userUrl''
      | FindTopCompetitorArticles \<Rightarrow> ''topic''
      | CreateCompositeArticle \<Rightarrow> ''topic''
      | GenerateFullArticle \<Rightarrow> ''draft''
      | GenerateSocialMediaPosts \<Rightarrow> ''article''
      | ReviseFullArticle \<Rightarrow> ''currentArticle''
      | AnalyzePerformanceData \<Rightarrow> ''articleUrl'')"


section \<open>The client and the workflow components\<close>

text \<open>
  The browser calls the endpoint through \<^verbatim>\<open>callApi\<close>, one function per operation. What
  a component sees when it awaits such a call is a value, null included, or an
  exception. The values it holds are the JSON values it was sent; null is \<open>JNull\<close>.
\<close>

datatype api_call =
    Call_analyzeKeywords string "string list"
  | Call_findTopCompetitorArticles string
  | Call_createCompositeArticle string json
  | Call_generateFullArticle json
  | Call_generateSocialMediaPosts json
  | Call_reviseFullArticle json string
  | Call_analyzePerformanceData string string

datatype outcome = Resolved json | Rejected

type_synonym client = "api_call \<Rightarrow> outcome"

text \<open>
  The messages that the components show, one constructor for each string literal passed
  to \<^verbatim>\<open>setError\<close>: for a missing input, for a stage that returned null, and for a stage
  that threw.
\<close>

datatype message =
    Msg_user_url_missing | Msg_keywords_null | Msg_keywords_thrown
  | Msg_topic_missing | Msg_articles_null | Msg_articles_thrown
  | Msg_draft_null | Msg_draft_thrown
  | Msg_article_null | Msg_article_thrown
  | Msg_revision_null | Msg_revision_thrown
  | Msg_article_url_invalid | Msg_report_null | Msg_report_thrown

text \<open>\<^verbatim>\<open>!s.trim()\<close>: the string is empty once its whitespace is trimmed.\<close>

definition blank :: "string \<Rightarrow> bool" where
  "blank s \<longleftrightarrow> list_all js_space s"

subsection \<open>CreationStep\<close>

record creation =
  draft :: json
  fullArticle :: json
  socialPosts :: json
  isGenerating :: bool
  isRevising :: bool
  revisionPrompt :: string
  error :: "message option"
  copiedKey :: "string option"

text \<open>
  A handler runs from the state it was started in to the state it leaves when its last
  update is applied, and the second component lists the calls it issued, in order.
\<close>

definition handleGenerateArticle :: "client \<Rightarrow> creation \<Rightarrow> creation \<times> api_call list" where
  "handleGenerateArticle api s =
     (if \<not> truthy (draft s) then (s, [])
      else
        let s1 = s\<lparr>isGenerating := True, error := None, fullArticle := JNull,
                   socialPosts := JNull, revisionPrompt := []\<rparr>;
            c1 = Call_generateFullArticle (draft s)
        in (case api c1 of
              Rejected \<Rightarrow> (s1\<lparr>error := Some Msg_article_thrown, isGenerating := False\<rparr>, [c1])
            | Resolved articleResult \<Rightarrow>
                if truthy articleResult then
                  let s2 = s1\<lparr>fullArticle := articleResult\<rparr>;
                      c2 = Call_generateSocialMediaPosts articleResult
                  in (case api c2 of
                        Rejected \<Rightarrow>
                          (s2\<lparr>error := Some Msg_article_thrown, isGenerating := False\<rparr>, [c1, c2])
                      | Resolved socialResult \<Rightarrow>
                          if truthy socialResult
                          then (s2\<lparr>socialPosts := socialResult, isGenerating := False\<rparr>, [c1, c2])
                          else (s2\<lparr>isGenerating := False\<rparr>, [c1, c2]))
                else (s1\<lparr>error := Some Msg_article_null, isGenerating := False\<rparr>, [c1])))"

definition handleReviseArticle :: "client \<Rightarrow> creation \<Rightarrow> creation \<times> api_call list" where
  "handleReviseArticle api s =
     (if \<not> truthy (fullArticle s) \<or> blank (revisionPrompt s) then (s, [])
      else
        let s1 = s\<lparr>isRevising := True, error := None, socialPosts := JNull\<rparr>;
            c1 = Call_reviseFullArticle (fullArticle s) (revisionPrompt s)
        in (case api c1 of
              Rejected \<Rightarrow> (s1\<lparr>error := Some Msg_revision_thrown, isRevising := False\<rparr>, [c1])
            | Resolved result \<Rightarrow>
                if truthy result
                then (s1\<lparr>fullArticle := result, revisionPrompt := [], isRevising := False\<rparr>, [c1])
                else (s1\<lparr>error := Some Msg_revision_null, isRevising := False\<rparr>, [c1])))"

text \<open>The effect that runs when the component is given a draft.\<close>

definition resetForDraft :: "json \<Rightarrow> creation \<Rightarrow> creation" where
  "resetForDraft initialDraft s =
     s\<lparr>draft := initialDraft, fullArticle := JNull, socialPosts := JNull, error := None,
       isGenerating := False, isRevising := False, revisionPrompt := []\<rparr>"

text \<open>Everything that changes the state of the component.\<close>

datatype creation_event =
    GenerateArticle
  | ReviseArticle
  | DraftArrives json
  | TypeRevision string
  | Copy string
  | CopyExpires

definition creation_step :: "client \<Rightarrow> creation_event \<Rightarrow> creation \<Rightarrow> creation \<times> api_call list" where
  "creation_step api ev s =
     (case ev of
        GenerateArticle \<Rightarrow> handleGenerateArticle api s
      | ReviseArticle \<Rightarrow> handleReviseArticle api s
      | DraftArrives d \<Rightarrow> (resetForDraft d s, [])
      | TypeRevision t \<Rightarrow> (s\<lparr>revisionPrompt := t\<rparr>, [])
      | Copy k \<Rightarrow> (s\<lparr>copiedKey := Some k\<rparr>, [])
      | CopyExpires \<Rightarrow> (s\<lparr>copiedKey := None\<rparr>, []))"

text \<open>
  A session of the component: each event with the way the endpoint answers while it is
  handled. The calls of all events are listed in order.
\<close>

fun creation_run :: "(client \<times> creation_event) list \<Rightarrow> creation \<Rightarrow> creation \<times> api_call list" where
  "creation_run [] s = (s, [])"
| "creation_run ((api, ev) # rest) s =
     (let (s1, calls1) = creation_step api ev s;
          (s2, calls2) = creation_run rest s1
      in (s2, calls1 @ calls2))"

fun is_social_call :: "api_call \<Rightarrow> bool" where
  "is_social_call (Call_generateSocialMediaPosts a) = True"
| "is_social_call c = False"

subsection \<open>PreparationStep\<close>

datatype busy = Idle | AnalyzingKeywords | FindingArticles | CreatingDraft

record preparation =
  p_stage :: busy
  p_error :: "message option"
  userUrl :: string
  competitorUrl1 :: string
  competitorUrl2 :: string
  keywordAnalysis :: json
  topic :: string
  competitorArticles :: json

definition handleAnalyzeKeywords :: "client \<Rightarrow> preparation \<Rightarrow> preparation \<times> api_call list" where
  "handleAnalyzeKeywords api s =
     (if blank (userUrl s) then (s\<lparr>p_error := Some Msg_user_url_missing\<rparr>, [])
      else
        let s1 = s\<lparr>p_error := None, p_stage := AnalyzingKeywords, keywordAnalysis := JNull\<rparr>;
            competitorUrls = filter (\<lambda>u. \<not> blank u) [competitorUrl1 s, competitorUrl2 s];
            c1 = Call_analyzeKeywords (userUrl s) competitorUrls
        in (case api c1 of
              Rejected \<Rightarrow> (s1\<lparr>p_error := Some Msg_keywords_thrown, p_stage := Idle\<rparr>, [c1])
            | Resolved result \<Rightarrow>
                if truthy result \<and> truthy_prop result ''keywordAnalysis''
                then (s1\<lparr>keywordAnalysis := result, p_stage := Idle\<rparr>, [c1])
                else (s1\<lparr>p_error := Some Msg_keywords_null, p_stage := Idle\<rparr>, [c1])))"

definition handleFindArticles :: "client \<Rightarrow> preparation \<Rightarrow> preparation \<times> api_call list" where
  "handleFindArticles api s =
     (if blank (topic s) then (s\<lparr>p_error := Some Msg_topic_missing\<rparr>, [])
      else
        let s1 = s\<lparr>p_error := None, p_stage := FindingArticles, competitorArticles := JNull\<rparr>;
            c1 = Call_findTopCompetitorArticles (topic s)
        in (case api c1 of
              Rejected \<Rightarrow> (s1\<lparr>p_error := Some Msg_articles_thrown, p_stage := Idle\<rparr>, [c1])
            | Resolved result \<Rightarrow>
                if truthy result
                then (s1\<lparr>competitorArticles := result, p_stage := Idle\<rparr>, [c1])
                else (s1\<lparr>p_error := Some Msg_articles_null, p_stage := Idle\<rparr>, [c1])))"

text \<open>
  The third component of the result is the draft handed to \<^verbatim>\<open>onDraftCreated\<close>, which
  stores it and makes Creation the current step.
\<close>

definition handleCreateCompositeArticle ::
    "client \<Rightarrow> preparation \<Rightarrow> preparation \<times> api_call list \<times> json option" where
  "handleCreateCompositeArticle api s =
     (if \<not> truthy (competitorArticles s) \<or> topic s = [] then (s, [], None)
      else
        let s1 = s\<lparr>p_error := None, p_stage := CreatingDraft\<rparr>;
            c1 = Call_createCompositeArticle (topic s) (competitorArticles s)
        in (case api c1 of
              Rejected \<Rightarrow> (s1\<lparr>p_error := Some Msg_draft_thrown, p_stage := Idle\<rparr>, [c1], None)
            | Resolved result \<Rightarrow>
                if truthy result
                then (s1\<lparr>p_stage := Idle\<rparr>, [c1], Some result)
                else (s1\<lparr>p_error := Some Msg_draft_null, p_stage := Idle\<rparr>, [c1], None)))"

subsection \<open>AnalysisStep\<close>

record analysis_state =
  a_isLoading :: bool
  a_error :: "message option"
  articleUrl :: string
  socialUrl :: string
  analysis :: json

definition handleGenerateReport :: "client \<Rightarrow> analysis_state \<Rightarrow> analysis_state \<times> api_call list" where
  "handleGenerateReport api s =
     (if blank (articleUrl s) \<or> \<not> prefix ''http'' (articleUrl s)
      then (s\<lparr>a_error := Some Msg_article_url_invalid\<rparr>, [])
      else
        let s1 = s\<lparr>a_error := None, a_isLoading := True, analysis := JNull\<rparr>;
            c1 = Call_analyzePerformanceData (articleUrl s) (socialUrl s)
        in (case api c1 of
              Rejected \<Rightarrow> (s1\<lparr>a_error := Some Msg_report_thrown, a_isLoading := False\<rparr>, [c1])
            | Resolved result \<Rightarrow>
                if truthy result
                then (s1\<lparr>analysis := result, a_isLoading := False\<rparr>, [c1])
                else (s1\<lparr>a_error := Some Msg_report_null, a_isLoading := False\<rparr>, [c1])))"

text \<open>
  A stage has failed when its call threw or returned a value that the handler takes for
  null. Clients that always fail, and states that hold results, for the examples.
\<close>

definition failed :: "outcome \<Rightarrow> bool" where
  "failed r = (case r of Rejected \<Rightarrow> True | Resolved v \<Rightarrow> \<not> truthy v)"

definition returning_null :: client where
  "returning_null c = Resolved JNull"

definition rejecting :: client where
  "rejecting c = Rejected"

text \<open>A client that writes the article and nothing else, and one that answers every call.\<close>

definition article_only :: client where
  "article_only c =
     (case c of Call_generateFullArticle d \<Rightarrow> Resolved (JStr ''# Article'') | _ \<Rightarrow> Resolved JNull)"

definition sample_posts :: json where
  "sample_posts = JObj [(''x'', JStr ''post''), (''facebook'', JStr ''post''),
                        (''linkedin'', JStr ''post''), (''hashtags'', JArr [JStr ''#seo''])]"

definition sample_draft :: json where
  "sample_draft = JObj [(''outline'', JObj [(''title'', JStr ''T''), (''sections'', JArr [])]),
                        (''introduction'', JStr ''I'')]"

definition researched :: preparation where
  "researched = \<lparr>p_stage = Idle, p_error = None, userUrl = ''https://a.com'',
                 competitorUrl1 = ''https://b.com'', competitorUrl2 = [],
                 keywordAnalysis = JObj [(''keywordAnalysis'', JArr []), (''summary'', JStr ''S'')],
                 topic = ''shoes'', competitorArticles = JArr [JObj [(''title'', JStr ''A'')]]\<rparr>"

definition reported :: analysis_state where
  "reported = \<lparr>a_isLoading = False, a_error = None, articleUrl = ''https://a.com/post'',
               socialUrl = [], analysis = JObj [(''summary'', JStr ''S''), (''actionPlan'', JArr [])]\<rparr>"

definition helpful :: client where
  "helpful c =
     (case c of
        Call_generateFullArticle d \<Rightarrow> Resolved (JStr ''# Article'')
      | Call_generateSocialMediaPosts a \<Rightarrow> Resolved sample_posts
      | Call_reviseFullArticle a i \<Rightarrow> Resolved (JStr ''# Revised'')
      | _ \<Rightarrow> Resolved JNull)"

definition written :: creation where
  "written = \<lparr>draft = sample_draft, fullArticle = JStr ''# Article'', socialPosts = sample_posts,
              isGenerating = False, isRevising = False, revisionPrompt = ''shorter'',
              error = None, copiedKey = None\<rparr>"


section \<open>The CSV export of a performance analysis\<close>

text \<open>The result type of the analysis stage, as \<^verbatim>\<open>types.ts\<close> declares it.\<close>

record KeyMetrics =
  monthlyPV :: string
  users :: string
  cvr :: string
  bounceRate :: string

record TrafficSource =
  source :: string
  percentage :: rat

record KeywordPerformance =
  keyword :: string
  estimatedPV :: rat

record ActionItem =
  action :: string
  justification :: string

record PerformanceAnalysis =
  summary :: string
  keyMetrics :: KeyMetrics
  trafficSources :: "TrafficSource list"
  keywordPerformance :: "KeywordPerformance list"
  actionPlan :: "ActionItem list"

definition nl :: string where
  "nl = [CHR 0x0A]"

definition dq :: string where
  "dq = [CHR 0x22]"

text \<open>\<^verbatim>\<open>s.replace(/"/g, '""')\<close>: every double quote is replaced by two.\<close>

definition replace_quotes :: "string \<Rightarrow> string" where
  "replace_quotes s = concat (map (\<lambda>c. if c = CHR 0x22 then [CHR 0x22, CHR 0x22] else [c]) s)"

text \<open>\<^verbatim>\<open>xs.join(sep)\<close>.\<close>

fun join :: "string \<Rightarrow> string list \<Rightarrow> string" where
  "join sep [] = []"
| "join sep [x] = x"
| "join sep (x # y # ys) = x @ sep @ join sep (y # ys)"

text \<open>
  The text that \<open>downloadCSV\<close> accumulates in \<^verbatim>\<open>csvContent\<close>, one line here for each
  \<^verbatim>\<open>+=\<close> there. The function that turns a number into text inside a template literal is
  the platform's and is a parameter.
\<close>

definition csvContent :: "(rat \<Rightarrow> string) \<Rightarrow> PerformanceAnalysis \<Rightarrow> string" where
  "csvContent numberToString d =
     ''data:text/csv;charset=utf-8,''
     @ ''Summary'' @ nl
     @ dq @ replace_quotes (summary d) @ dq @ nl @ nl
     @ ''Key Metrics'' @ nl
     @ ''Metric,Value'' @ nl
     @ ''Monthly PV,'' @ monthlyPV (keyMetrics d) @ nl
     @ ''Users,'' @ users (keyMetrics d) @ nl
     @ ''Conversion Rate,'' @ cvr (keyMetrics d) @ nl
     @ ''Bounce Rate,'' @ bounceRate (keyMetrics d) @ nl @ nl
     @ ''Traffic Sources'' @ nl
     @ ''Source,Percentage'' @ nl
     @ concat (map (\<lambda>src. source src @ '','' @ numberToString (percentage src) @ ''%'' @ nl)
         (trafficSources d))
     @ nl
     @ ''Keyword Performance'' @ nl
     @ ''Keyword,Estimated PV'' @ nl
     @ concat (map (\<lambda>kw. dq @ replace_quotes (keyword kw) @ dq @ '','' @ numberToString (estimatedPV kw) @ nl)
         (keywordPerformance d))
     @ nl
     @ ''Action Plan'' @ nl
     @ join '','' [''Action'', ''Justification''] @ nl
     @ join nl (map (join '','')
         (map (\<lambda>item. [dq @ replace_quotes (action item) @ dq,
                        dq @ replace_quotes (justification item) @ dq])
            (actionPlan d)))"

text \<open>
  \<open>downloadCSV\<close>: nothing happens without data; otherwise a link is clicked whose target
  is the encoded text and whose file name ends in \<^verbatim>\<open>.csv\<close>. \<^verbatim>\<open>encodeURI\<close> is the
  platform's.
\<close>

record download_link =
  href :: string
  download :: string

definition downloadCSV ::
    "(string \<Rightarrow> string) \<Rightarrow> (rat \<Rightarrow> string) \<Rightarrow> PerformanceAnalysis option \<Rightarrow> string \<Rightarrow> download_link option" where
  "downloadCSV encodeURI numberToString dat filename =
     (case dat of
        None \<Rightarrow> None
      | Some d \<Rightarrow> Some \<lparr>href = encodeURI (csvContent numberToString d), download = filename @ ''.csv''\<rparr>)"

text \<open>
  The export as the specification describes it: a header and five sections, each a
  label on a line of its own and a body. The free-text fields are the summary, the
  keywords, the actions and their justifications; each is written between double quotes
  with its own double quotes doubled.
\<close>

definition quoted :: "string \<Rightarrow> string" where
  "quoted s = dq @ replace_quotes s @ dq"

definition csv_sections :: "(rat \<Rightarrow> string) \<Rightarrow> PerformanceAnalysis \<Rightarrow> (string \<times> string) list" where
  "csv_sections numberToString d =
     [(''Summary'', quoted (summary d) @ nl @ nl),
      (''Key Metrics'',
         ''Metric,Value'' @ nl
         @ ''Monthly PV,'' @ monthlyPV (keyMetrics d) @ nl
         @ ''Users,'' @ users (keyMetrics d) @ nl
         @ ''Conversion Rate,'' @ cvr (keyMetrics d) @ nl
         @ ''Bounce Rate,'' @ bounceRate (keyMetrics d) @ nl @ nl),
      (''Traffic Sources'',
         ''Source,Percentage'' @ nl
         @ concat (map (\<lambda>src. source src @ '','' @ numberToString (percentage src) @ ''%'' @ nl)
             (trafficSources d))
         @ nl),
      (''Keyword Performance'',
         ''Keyword,Estimated PV'' @ nl
         @ concat (map (\<lambda>kw. quoted (keyword kw) @ '','' @ numberToString (estimatedPV kw) @ nl)
             (keywordPerformance d))
         @ nl),
      (''Action Plan'',
         ''Action,Justification'' @ nl
         @ join nl (map (\<lambda>item. quoted (action item) @ '','' @ quoted (justification item))
             (actionPlan d)))]"

definition render_sections :: "(string \<times> string) list \<Rightarrow> string" where
  "render_sections secs = concat (map (\<lambda>(label, body). label @ nl @ body) secs)"

text \<open>
  A text in which double quotes come in pairs only, and the reading of such a text that
  takes each pair for one quote.
\<close>

fun quotes_doubled :: "string \<Rightarrow> bool" where
  "quotes_doubled [] = True"
| "quotes_doubled [c] = (c \<noteq> CHR 0x22)"
| "quotes_doubled (c # e # r) =
     (if c = CHR 0x22 then e = CHR 0x22 \<and> quotes_doubled r else quotes_doubled (e # r))"

fun undouble :: "string \<Rightarrow> string" where
  "undouble [] = []"
| "undouble [c] = [c]"
| "undouble (c # e # r) =
     (if c = CHR 0x22 \<and> e = CHR 0x22 then CHR 0x22 # undouble r else c # undouble (e # r))"

text \<open>An analysis with quotes in its free text, and a rendering of its numbers.\<close>

definition sample_analysis :: PerformanceAnalysis where
  "sample_analysis =
     \<lparr>summary = [CHR ''a'', CHR 0x22, CHR ''b''],
      keyMetrics = \<lparr>monthlyPV = ''10,500'', users = ''8,200'', cvr = ''1.5%'', bounceRate = ''45%''\<rparr>,
      trafficSources = [\<lparr>source = ''search'', percentage = 60\<rparr>, \<lparr>source = ''social'', percentage = 40\<rparr>],
      keywordPerformance = [\<lparr>keyword = [CHR 0x22, CHR ''k''], estimatedPV = 1200\<rparr>],
      actionPlan = [\<lparr>action = ''act'', justification = [CHR ''w'', CHR 0x22]\<rparr>]\<rparr>"

text \<open>
  An analysis with a double quote in the name of a traffic source and in a key metric,
  and with the same quote in its keyword.
\<close>

definition quoted_source_analysis :: PerformanceAnalysis where
  "quoted_source_analysis =
     \<lparr>summary = ''S'',
      keyMetrics = \<lparr>monthlyPV = ''10,500'', users = ''8,200'', cvr = ''1.5%'',
                    bounceRate = [CHR ''4'', CHR 0x22]\<rparr>,
      trafficSources = [\<lparr>source = [CHR ''a'', CHR 0x22, CHR ''b''], percentage = 60\<rparr>],
      keywordPerformance = [\<lparr>keyword = [CHR ''a'', CHR 0x22, CHR ''b''], estimatedPV = 1200\<rparr>],
      actionPlan = []\<rparr>"

definition sample_number :: "rat \<Rightarrow> string" where
  "sample_number n = (if n = 60 then ''60'' else if n = 40 then ''40'' else ''1200'')"


section \<open>Properties of the transport endpoint\<close>

lemma run_stage_result:
  "run_stage P ai st ps = (case ai st ps of Inl ex \<Rightarrow> Inl ex | Inr t \<Rightarrow> Inr (stage_result P st t))"
  by (cases st)
     (simp_all add: run_stage_def stage_result_def analyzeKeywords_def findTopCompetitorArticles_def
        createCompositeArticle_def generateFullArticle_def generateSocialMediaPosts_def
        reviseFullArticle_def analyzePerformanceData_def split: sum.splits)

lemma reading_present: "\<not> absent ps \<Longrightarrow> reading T ps k f = f ps"
  by (simp add: reading_def)

lemma reading_absent: "absent ps \<Longrightarrow> reading T ps k f = Inl (Error (T ps k))"
  by (simp add: reading_def)

lemma dispatch_operation_name:
  "dispatch T P ai (Some (JStr (operation_name st))) ps
     = Some (reading T ps (first_argument st) (run_stage P ai st))"
  by (cases st) (simp_all add: dispatch_def operation_name_def first_argument_def run_stage_def reading_def)

lemma operation_name_not_verifyPassword: "operation_name st \<noteq> ''verifyPassword''"
  by (cases st) (simp_all add: operation_name_def)

lemma dispatch_unknown:
  "(\<forall>st. op \<noteq> Some (JStr (operation_name st))) \<Longrightarrow> dispatch T P ai op ps = None"
proof -
  assume a: "\<forall>st. op \<noteq> Some (JStr (operation_name st))"
  have "op \<noteq> Some (JStr ''analyzeKeywords'')" using a[rule_format, of AnalyzeKeywords] by (simp add: operation_name_def)
  moreover have "op \<noteq> Some (JStr ''findTopCompetitorArticles'')" using a[rule_format, of FindTopCompetitorArticles] by (simp add: operation_name_def)
  moreover have "op \<noteq> Some (JStr ''createCompositeArticle'')" using a[rule_format, of CreateCompositeArticle] by (simp add: operation_name_def)
  moreover have "op \<noteq> Some (JStr ''generateFullArticle'')" using a[rule_format, of GenerateFullArticle] by (simp add: operation_name_def)
  moreover have "op \<noteq> Some (JStr ''generateSocialMediaPosts'')" using a[rule_format, of GenerateSocialMediaPosts] by (simp add: operation_name_def)
  moreover have "op \<noteq> Some (JStr ''reviseFullArticle'')" using a[rule_format, of ReviseFullArticle] by (simp add: operation_name_def)
  moreover have "op \<noteq> Some (JStr ''analyzePerformanceData'')" using a[rule_format, of AnalyzePerformanceData] by (simp add: operation_name_def)
  ultimately show ?thesis by (simp add: dispatch_def)
qed

lemma operation_body: "operation req = Some v \<Longrightarrow> \<not> absent (req_body req)"
  by (auto simp: operation_def read_field_def absent_def split: option.splits)

text \<open>
  Claim C3. When no access-gate secret is configured (\<^verbatim>\<open>APP_PASSWORD\<close> is absent), a
  \<^verbatim>\<open>verifyPassword\<close> request is answered with \<open>success = false\<close>, whatever the
  parameter bag holds: any password string, the empty one included, or none at all.
\<close>

theorem gate_denies_without_secret:
  assumes "APP_PASSWORD e = None" and "http_method req = ''POST''"
    and "operation req = Some (JStr ''verifyPassword'')"
  shows "handler T P ai e req = Sent (respond 200 (data_body (JObj [(''success'', JBool False)])))"
  using assms operation_body[of req]
  by (simp add: handler_def verifyPassword_def env_unset_def)

theorem gate_denies_without_secret_witness:
  "handler sample_type_error json_parse (answering None) \<lparr>APP_PASSWORD = None, API_KEY = Some ''key''\<rparr>
     \<lparr>http_method = ''POST'',
      req_body = Some (JObj [(''operation'', JStr ''verifyPassword''),
                             (''params'', JObj [(''password'', JStr [])])])\<rparr>
   = Sent \<lparr>status = 200, body = JObj [(''data'', JObj [(''success'', JBool False)])]\<rparr>"
  using gate_denies_without_secret
    [of "\<lparr>APP_PASSWORD = None, API_KEY = Some ''key''\<rparr>"
        "\<lparr>http_method = ''POST'',
          req_body = Some (JObj [(''operation'', JStr ''verifyPassword''),
                                 (''params'', JObj [(''password'', JStr [])])])\<rparr>"
        sample_type_error json_parse "answering None"]
  by (simp add: respond_def data_body_def operation_def read_field_def)

text \<open>
  Claim C4, as the code has it. A request that is not a POST is answered 405 with
  an error string. A POST whose body is absent makes the handler throw before it sends
  anything. A POST with a body, for anything but \<^verbatim>\<open>verifyPassword\<close>, is answered 500
  when the generation credential is unset, before the operation is looked at. With the
  credential set, an operation that is none of the recognized names is answered 400; a
  stage whose parameter bag is absent is answered 500 with the message of the
  TypeError; a stage whose call throws is answered 500 with the message of the thrown
  error (or \<^verbatim>\<open>Unknown error\<close> when what is thrown is not an error); a stage that
  returns is answered 200 with its result under \<^verbatim>\<open>data\<close>, null included. A
  \<^verbatim>\<open>verifyPassword\<close> request with a configured secret is answered 200 with the
  outcome of the comparison when it has a parameter bag, and 500 when it has none.
\<close>

theorem handler_responses:
  "(http_method req \<noteq> ''POST'' \<longrightarrow>
      handler T P ai e req = Sent (respond 405 (error_body ''Method Not Allowed'')))
   \<and> (http_method req = ''POST'' \<and> absent (req_body req) \<longrightarrow>
      handler T P ai e req = Uncaught (Error (T (req_body req) ''operation'')))
   \<and> (http_method req = ''POST'' \<and> \<not> absent (req_body req)
        \<and> operation req \<noteq> Some (JStr ''verifyPassword'') \<and> env_unset (API_KEY e) \<longrightarrow>
      handler T P ai e req =
        Sent (respond 500 (error_body ''API_KEY environment variable not set on the server'')))
   \<and> (http_method req = ''POST'' \<and> \<not> absent (req_body req) \<and> \<not> env_unset (API_KEY e)
        \<and> operation req \<noteq> Some (JStr ''verifyPassword'')
        \<and> (\<forall>st. operation req \<noteq> Some (JStr (operation_name st))) \<longrightarrow>
      handler T P ai e req = Sent (respond 400 (error_body ''Invalid operation specified.'')))
   \<and> (http_method req = ''POST'' \<and> \<not> env_unset (API_KEY e)
        \<and> operation req = Some (JStr (operation_name st)) \<and> absent (params req) \<longrightarrow>
      handler T P ai e req =
        Sent (respond 500 (error_body (''An internal server error occurred: ''
                @ T (params req) (first_argument st)))))
   \<and> (http_method req = ''POST'' \<and> \<not> env_unset (API_KEY e)
        \<and> operation req = Some (JStr (operation_name st)) \<and> \<not> absent (params req)
        \<and> ai st (params req) = Inl ex \<longrightarrow>
      handler T P ai e req =
        Sent (respond 500 (error_body (''An internal server error occurred: '' @ thrown_message ex)))
      \<and> (\<forall>m. ex = Error m \<longrightarrow> thrown_message ex = m))
   \<and> (http_method req = ''POST'' \<and> \<not> env_unset (API_KEY e)
        \<and> operation req = Some (JStr (operation_name st)) \<and> \<not> absent (params req)
        \<and> ai st (params req) = Inr t \<longrightarrow>
      handler T P ai e req = Sent (respond 200 (data_body (stage_result P st t))))
   \<and> (http_method req = ''POST'' \<and> operation req = Some (JStr ''verifyPassword'')
        \<and> \<not> env_unset (APP_PASSWORD e) \<and> params req = Some p \<and> p \<noteq> JNull \<longrightarrow>
      handler T P ai e req =
        Sent (respond 200 (data_body (JObj [(''success'',
          JBool (get_prop p ''password'' = map_option JStr (APP_PASSWORD e)))]))))
   \<and> (http_method req = ''POST'' \<and> operation req = Some (JStr ''verifyPassword'')
        \<and> \<not> env_unset (APP_PASSWORD e) \<and> absent (params req) \<longrightarrow>
      handler T P ai e req =
        Sent (respond 500 (error_body ''Internal server error during authentication.'')))"
proof (intro conjI impI)
  assume "http_method req \<noteq> ''POST''"
  then show "handler T P ai e req = Sent (respond 405 (error_body ''Method Not Allowed''))"
    by (simp add: handler_def)
next
  assume "http_method req = ''POST'' \<and> absent (req_body req)"
  then show "handler T P ai e req = Uncaught (Error (T (req_body req) ''operation''))"
    by (simp add: handler_def)
next
  assume "http_method req = ''POST'' \<and> \<not> absent (req_body req)
        \<and> operation req \<noteq> Some (JStr ''verifyPassword'') \<and> env_unset (API_KEY e)"
  then show "handler T P ai e req =
        Sent (respond 500 (error_body ''API_KEY environment variable not set on the server''))"
    by (simp add: handler_def)
next
  assume a: "http_method req = ''POST'' \<and> \<not> absent (req_body req) \<and> \<not> env_unset (API_KEY e)
        \<and> operation req \<noteq> Some (JStr ''verifyPassword'')
        \<and> (\<forall>st. operation req \<noteq> Some (JStr (operation_name st)))"
  then have "dispatch T P ai (operation req) (params req) = None"
    by (simp add: dispatch_unknown)
  with a show "handler T P ai e req = Sent (respond 400 (error_body ''Invalid operation specified.''))"
    by (simp add: handler_def)
next
  assume a: "http_method req = ''POST'' \<and> \<not> env_unset (API_KEY e)
        \<and> operation req = Some (JStr (operation_name st)) \<and> absent (params req)"
  then have b: "\<not> absent (req_body req)" by (simp add: operation_body)
  from a have "dispatch T P ai (operation req) (params req)
      = Some (Inl (Error (T (params req) (first_argument st))))"
    by (simp add: dispatch_operation_name reading_absent)
  with a b show "handler T P ai e req =
        Sent (respond 500 (error_body (''An internal server error occurred: ''
                @ T (params req) (first_argument st))))"
    by (simp add: handler_def operation_name_not_verifyPassword thrown_message_def)
next
  assume a: "http_method req = ''POST'' \<and> \<not> env_unset (API_KEY e)
        \<and> operation req = Some (JStr (operation_name st)) \<and> \<not> absent (params req)
        \<and> ai st (params req) = Inl ex"
  then have b: "\<not> absent (req_body req)" by (simp add: operation_body)
  from a have "dispatch T P ai (operation req) (params req) = Some (Inl ex)"
    by (simp add: dispatch_operation_name reading_present run_stage_result)
  with a b show "handler T P ai e req =
        Sent (respond 500 (error_body (''An internal server error occurred: '' @ thrown_message ex)))"
    by (simp add: handler_def operation_name_not_verifyPassword)
next
  show "\<forall>m. ex = Error m \<longrightarrow> thrown_message ex = m"
    by (simp add: thrown_message_def)
next
  assume a: "http_method req = ''POST'' \<and> \<not> env_unset (API_KEY e)
        \<and> operation req = Some (JStr (operation_name st)) \<and> \<not> absent (params req)
        \<and> ai st (params req) = Inr t"
  then have b: "\<not> absent (req_body req)" by (simp add: operation_body)
  from a have "dispatch T P ai (operation req) (params req) = Some (Inr (stage_result P st t))"
    by (simp add: dispatch_operation_name reading_present run_stage_result)
  with a b show "handler T P ai e req = Sent (respond 200 (data_body (stage_result P st t)))"
    by (simp add: handler_def operation_name_not_verifyPassword)
next
  assume a: "http_method req = ''POST'' \<and> operation req = Some (JStr ''verifyPassword'')
        \<and> \<not> env_unset (APP_PASSWORD e) \<and> params req = Some p \<and> p \<noteq> JNull"
  then have b: "\<not> absent (req_body req)" by (simp add: operation_body)
  from a b show "handler T P ai e req =
        Sent (respond 200 (data_body (JObj [(''success'',
          JBool (get_prop p ''password'' = map_option JStr (APP_PASSWORD e)))])))"
    by (cases p) (simp_all add: handler_def verifyPassword_def)
next
  assume a: "http_method req = ''POST'' \<and> operation req = Some (JStr ''verifyPassword'')
        \<and> \<not> env_unset (APP_PASSWORD e) \<and> absent (params req)"
  then have b: "\<not> absent (req_body req)" by (simp add: operation_body)
  from a b show "handler T P ai e req =
        Sent (respond 500 (error_body ''Internal server error during authentication.''))"
    by (auto simp: handler_def verifyPassword_def absent_def)
qed

theorem handler_responses_witness:
  "handler sample_type_error json_parse (answering None) sample_env
      \<lparr>http_method = ''GET'', req_body = None\<rparr>
     = Sent (respond 405 (error_body ''Method Not Allowed''))
   \<and> handler sample_type_error json_parse (answering None) sample_env
      \<lparr>http_method = ''POST'', req_body = None\<rparr>
     = Uncaught (Error (sample_type_error None ''operation''))
   \<and> handler sample_type_error json_parse (answering None) (sample_env\<lparr>API_KEY := None\<rparr>)
        (post ''generateFullArticle'' (Some draft_bag))
     = Sent (respond 500 (error_body ''API_KEY environment variable not set on the server''))
   \<and> handler sample_type_error json_parse (answering None) sample_env (post ''publishArticle'' None)
     = Sent (respond 400 (error_body ''Invalid operation specified.''))
   \<and> handler sample_type_error json_parse (answering (Some ''# Title'')) sample_env
        (post ''generateFullArticle'' None)
     = Sent (respond 500 (error_body (''An internal server error occurred: ''
          @ sample_type_error None ''draft'')))
   \<and> handler sample_type_error json_parse (throwing (Error ''quota exceeded'')) sample_env
        (post ''reviseFullArticle'' (Some revision_bag))
     = Sent (respond 500 (error_body ''An internal server error occurred: quota exceeded''))
   \<and> handler sample_type_error json_parse (answering (Some ''# Title'')) sample_env
        (post ''generateFullArticle'' (Some draft_bag))
     = Sent (respond 200 (data_body (JStr ''# Title'')))
   \<and> handler sample_type_error json_parse (answering None) sample_env
        (post ''verifyPassword'' (Some (JObj [(''password'', JStr ''secret'')])))
     = Sent (respond 200 (data_body (JObj [(''success'', JBool True)])))
   \<and> handler sample_type_error json_parse (answering None) sample_env (post ''verifyPassword'' None)
     = Sent (respond 500 (error_body ''Internal server error during authentication.''))"
proof -
  let ?T = sample_type_error and ?P = json_parse
  note defs = post_def operation_def params_def read_field_def absent_def env_unset_def sample_env_def
  have names: "\<forall>st. operation (post ''publishArticle'' None) \<noteq> Some (JStr (operation_name st))"
  proof
    fix st show "operation (post ''publishArticle'' None) \<noteq> Some (JStr (operation_name st))"
      by (cases st) (simp_all add: defs operation_name_def)
  qed
  have 1: "handler ?T ?P (answering None) sample_env \<lparr>http_method = ''GET'', req_body = None\<rparr>
     = Sent (respond 405 (error_body ''Method Not Allowed''))"
    using handler_responses[where req = "\<lparr>http_method = ''GET'', req_body = None\<rparr>" and T = ?T
        and P = ?P and ai = "answering None" and e = sample_env]
    by simp
  have 2: "handler ?T ?P (answering None) sample_env \<lparr>http_method = ''POST'', req_body = None\<rparr>
     = Uncaught (Error (?T None ''operation''))"
    using handler_responses[where req = "\<lparr>http_method = ''POST'', req_body = None\<rparr>" and T = ?T
        and P = ?P and ai = "answering None" and e = sample_env]
    by (simp add: absent_def)
  have 3: "handler ?T ?P (answering None) (sample_env\<lparr>API_KEY := None\<rparr>)
        (post ''generateFullArticle'' (Some draft_bag))
     = Sent (respond 500 (error_body ''API_KEY environment variable not set on the server''))"
    using handler_responses[where req = "post ''generateFullArticle'' (Some draft_bag)" and T = ?T
        and P = ?P and ai = "answering None" and e = "sample_env\<lparr>API_KEY := None\<rparr>"]
    by (simp add: defs)
  have 4: "handler ?T ?P (answering None) sample_env (post ''publishArticle'' None)
     = Sent (respond 400 (error_body ''Invalid operation specified.''))"
    using handler_responses[where req = "post ''publishArticle'' None" and T = ?T
        and P = ?P and ai = "answering None" and e = sample_env] names
    by (simp add: defs)
  have 5: "handler ?T ?P (answering (Some ''# Title'')) sample_env (post ''generateFullArticle'' None)
     = Sent (respond 500 (error_body (''An internal server error occurred: '' @ ?T None ''draft'')))"
    using handler_responses[where req = "post ''generateFullArticle'' None" and T = ?T
        and P = ?P and ai = "answering (Some ''# Title'')" and e = sample_env and st = GenerateFullArticle]
    by (simp add: defs operation_name_def first_argument_def)
  have 6: "handler ?T ?P (throwing (Error ''quota exceeded'')) sample_env
        (post ''reviseFullArticle'' (Some revision_bag))
     = Sent (respond 500 (error_body ''An internal server error occurred: quota exceeded''))"
    using handler_responses[where req = "post ''reviseFullArticle'' (Some revision_bag)" and T = ?T
        and P = ?P and ai = "throwing (Error ''quota exceeded'')" and e = sample_env
        and st = ReviseFullArticle and ex = "Error ''quota exceeded''"]
    by (simp add: defs operation_name_def throwing_def thrown_message_def revision_bag_def)
  have 7: "handler ?T ?P (answering (Some ''# Title'')) sample_env
        (post ''generateFullArticle'' (Some draft_bag))
     = Sent (respond 200 (data_body (JStr ''# Title'')))"
    using handler_responses[where req = "post ''generateFullArticle'' (Some draft_bag)" and T = ?T
        and P = ?P and ai = "answering (Some ''# Title'')" and e = sample_env
        and st = GenerateFullArticle and t = "Some ''# Title''"]
    by (simp add: defs operation_name_def answering_def draft_bag_def
          stage_result_def generateFullArticle_result_def)
  have 8: "handler ?T ?P (answering None) sample_env
        (post ''verifyPassword'' (Some (JObj [(''password'', JStr ''secret'')])))
     = Sent (respond 200 (data_body (JObj [(''success'', JBool True)])))"
    using handler_responses[where req = "post ''verifyPassword'' (Some (JObj [(''password'', JStr ''secret'')]))"
        and T = ?T and P = ?P and ai = "answering None" and e = sample_env
        and p = "JObj [(''password'', JStr ''secret'')]"]
    by (simp add: defs)
  have 9: "handler ?T ?P (answering None) sample_env (post ''verifyPassword'' None)
     = Sent (respond 500 (error_body ''Internal server error during authentication.''))"
    using handler_responses[where req = "post ''verifyPassword'' None"
        and T = ?T and P = ?P and ai = "answering None" and e = sample_env]
    by (simp add: defs)
  from 1 2 3 4 5 6 7 8 9 show ?thesis by (intro conjI)
qed

text \<open>
  The claim as stated promises 400 for every unrecognized operation. Without the
  generation credential such a request is answered 500.
\<close>

theorem unknown_operation_without_credential_counterexample:
  "dispatch sample_type_error json_parse (answering None) (Some (JStr ''publishArticle'')) None = None
   \<and> handler sample_type_error json_parse (answering None) \<lparr>APP_PASSWORD = None, API_KEY = None\<rparr>
        \<lparr>http_method = ''POST'', req_body = Some (JObj [(''operation'', JStr ''publishArticle'')])\<rparr>
      = Sent \<lparr>status = 500,
               body = JObj [(''error'', JStr ''API_KEY environment variable not set on the server'')]\<rparr>"
  by (simp add: dispatch_def handler_def env_unset_def respond_def error_body_def absent_def
        operation_def read_field_def)


section \<open>Properties of the response normalizer\<close>

lemma safeJsonParse_Some: "P (strip_fence s) = Some v \<Longrightarrow> safeJsonParse P s = v"
  by (simp add: safeJsonParse_def)

lemma safeJsonParse_None: "P (strip_fence s) = None \<Longrightarrow> safeJsonParse P s = JNull"
  by (simp add: safeJsonParse_def)

lemma validated_field_not_truthy:
  assumes f: "field \<in> set (validated_fields st)"
    and v: "P (strip_fence (text_or_empty t)) = Some v"
    and n: "\<not> truthy_prop v field"
  shows "stage_result P st t = JNull"
proof -
  have s: "safeJsonParse P (text_or_empty t) = v" using v by (rule safeJsonParse_Some)
  show ?thesis
  proof (cases st)
    case AnalyzeKeywords
    with f n show ?thesis by (auto simp: validated_fields_def stage_result_def analyzeKeywords_result_def s)
  next
    case CreateCompositeArticle
    with f n show ?thesis by (auto simp: validated_fields_def stage_result_def createCompositeArticle_result_def s)
  next
    case GenerateSocialMediaPosts
    with f n show ?thesis by (auto simp: validated_fields_def stage_result_def generateSocialMediaPosts_result_def s)
  next
    case AnalyzePerformanceData
    with f n show ?thesis by (auto simp: validated_fields_def stage_result_def analyzePerformanceData_result_def s)
  qed (use f in \<open>simp_all add: validated_fields_def\<close>)
qed

text \<open>
  Claim C10. A field that a stage tests is tested for truthiness: when the parsed value
  holds the empty string in such a field, the stage returns null, although the field
  is there. The free-text stages return null for an empty text.
\<close>

theorem empty_value_is_failure:
  "(field \<in> set (validated_fields st) \<and> ai st ps = Inr t
      \<and> P (strip_fence (text_or_empty t)) = Some v \<and> get_prop v field = Some (JStr [])
     \<longrightarrow> run_stage P ai st ps = Inr JNull)
   \<and> ((st = GenerateFullArticle \<or> st = ReviseFullArticle) \<and> ai st ps = Inr (Some [])
     \<longrightarrow> run_stage P ai st ps = Inr JNull)"
proof (intro conjI impI)
  assume a: "field \<in> set (validated_fields st) \<and> ai st ps = Inr t
      \<and> P (strip_fence (text_or_empty t)) = Some v \<and> get_prop v field = Some (JStr [])"
  then have "\<not> truthy_prop v field" by (simp add: truthy_prop_def)
  with a have "stage_result P st t = JNull" by (blast intro: validated_field_not_truthy)
  with a show "run_stage P ai st ps = Inr JNull" by (simp add: run_stage_result)
next
  assume "(st = GenerateFullArticle \<or> st = ReviseFullArticle) \<and> ai st ps = Inr (Some [])"
  then show "run_stage P ai st ps = Inr JNull"
    by (auto simp: run_stage_result stage_result_def generateFullArticle_result_def reviseFullArticle_result_def)
qed

theorem empty_value_is_failure_witness:
  \<open>run_stage json_parse (answering (Some ''{"keywordAnalysis":[{"keyword":"k"}],"summary":""}''))
      AnalyzeKeywords None = Inr JNull
   \<and> run_stage json_parse (answering (Some [])) GenerateFullArticle None = Inr JNull\<close>
proof -
  let ?t = \<open>Some ''{"keywordAnalysis":[{"keyword":"k"}],"summary":""}''\<close>
  let ?v = "JObj [(''keywordAnalysis'', JArr [JObj [(''keyword'', JStr ''k'')]]), (''summary'', JStr [])]"
  have p: "json_parse (strip_fence (text_or_empty ?t)) = Some ?v" by code_simp
  have f: "''summary'' \<in> set (validated_fields AnalyzeKeywords)" by (simp add: validated_fields_def)
  have g: "get_prop ?v ''summary'' = Some (JStr [])" by simp
  have a: "answering ?t AnalyzeKeywords None = Inr ?t" by (simp add: answering_def)
  have 1: "run_stage json_parse (answering ?t) AnalyzeKeywords None = Inr JNull"
    using empty_value_is_failure[of "''summary''" AnalyzeKeywords "answering ?t" None ?t json_parse ?v] f a p g
    by blast
  have 2: "run_stage json_parse (answering (Some [])) GenerateFullArticle None = Inr JNull"
    using empty_value_is_failure[of _ GenerateFullArticle "answering (Some [])" None]
    by (simp add: answering_def)
  from 1 2 show ?thesis by blast
qed

text \<open>
  Claim C1, at the inputs where the code departs from it. The composite-article stage
  returns a draft that has no \<^verbatim>\<open>introduction\<close>, and the performance stage returns an
  analysis that has neither \<^verbatim>\<open>keyMetrics\<close> nor \<^verbatim>\<open>trafficSources\<close> nor
  \<^verbatim>\<open>keywordPerformance\<close>, although each stage declares these fields as required.
\<close>

theorem required_field_unchecked:
  \<open>''introduction'' \<in> set (required_fields CreateCompositeArticle)
   \<and> stage_result json_parse CreateCompositeArticle
      (Some ''{"outline":{"title":"T","sections":[{"heading":"H","points":["p"]}]}}'')
     = JObj [(''outline'', JObj [(''title'', JStr ''T''),
          (''sections'', JArr [JObj [(''heading'', JStr ''H''), (''points'', JArr [JStr ''p''])]])])]
   \<and> ''keyMetrics'' \<in> set (required_fields AnalyzePerformanceData)
   \<and> stage_result json_parse AnalyzePerformanceData
      (Some ''{"summary":"S","actionPlan":[]}'')
     = JObj [(''summary'', JStr ''S''), (''actionPlan'', JArr [])]\<close>
  by code_simp

text \<open>
  Claim C9, as the code has it. A value that the composite-article stage returns, other
  than null, is the JSON object that the oracle's text parses to, and its
  \<^verbatim>\<open>outline\<close> field is present and truthy. Sections and points are not looked at.
\<close>

theorem returned_draft_has_outline:
  assumes "createCompositeArticle_result P t = d" and "d \<noteq> JNull"
  shows "P (strip_fence (text_or_empty t)) = Some d \<and> (\<exists>kvs. d = JObj kvs) \<and> truthy_prop d ''outline''"
proof -
  let ?r = "safeJsonParse P (text_or_empty t)"
  from assms have c: "truthy ?r \<and> typeof_object ?r \<and> \<not> isArray ?r \<and> truthy_prop ?r ''outline''" and d: "d = ?r"
    by (auto simp: createCompositeArticle_result_def Let_def split: if_splits)
  from c obtain kvs where "?r = JObj kvs" by (cases ?r) auto
  moreover from d assms(2) have "P (strip_fence (text_or_empty t)) = Some d"
    by (auto simp: safeJsonParse_def split: option.splits)
  ultimately show ?thesis using c d by auto
qed

theorem returned_draft_has_outline_witness:
  \<open>json_parse (strip_fence (text_or_empty (Some ''{"outline":{"title":"T","sections":[]},"introduction":"I"}'')))
     = Some (JObj [(''outline'', JObj [(''title'', JStr ''T''), (''sections'', JArr [])]), (''introduction'', JStr ''I'')])
   \<and> truthy_prop (JObj [(''outline'', JObj [(''title'', JStr ''T''), (''sections'', JArr [])]), (''introduction'', JStr ''I'')]) ''outline''\<close>
proof -
  let ?t = \<open>Some ''{"outline":{"title":"T","sections":[]},"introduction":"I"}''\<close>
  let ?d = "JObj [(''outline'', JObj [(''title'', JStr ''T''), (''sections'', JArr [])]), (''introduction'', JStr ''I'')]"
  have r: "createCompositeArticle_result json_parse ?t = ?d" by code_simp
  have n: "?d \<noteq> JNull" by simp
  from returned_draft_has_outline[OF r n] show ?thesis by blast
qed

text \<open>
  The claim as stated promises a non-empty list of sections. A draft whose outline has
  no section is returned as it is.
\<close>

theorem draft_without_sections_counterexample:
  \<open>createCompositeArticle_result json_parse
      (Some ''{"outline":{"title":"T","sections":[]},"introduction":"I"}'') \<noteq> JNull
   \<and> \<not> draft_invariant (createCompositeArticle_result json_parse
      (Some ''{"outline":{"title":"T","sections":[]},"introduction":"I"}''))\<close>
  by code_simp


section \<open>The reference reader and the JSON grammar\<close>

lemma span_append_outside:
  "\<forall>x\<in>set ws. \<not> P x \<Longrightarrow>
     takeWhile P (u @ ws) = takeWhile P u \<and> dropWhile P (u @ ws) = dropWhile P u @ ws"
  by (induction u) (auto simp: takeWhile_eq_Nil_iff dropWhile_eq_self_iff neq_Nil_conv)

lemma dropWhile_ws_prefix: "list_all json_ws ws \<Longrightarrow> dropWhile json_ws (ws @ s) = dropWhile json_ws s"
  by (simp add: dropWhile_append2 list_all_iff)

lemma dropWhile_ws_suffix:
  "list_all json_ws ws \<Longrightarrow>
     dropWhile json_ws (s @ ws) = (if dropWhile json_ws s = [] then [] else dropWhile json_ws s @ ws)"
  by (induction s) (auto simp: list_all_iff dropWhile_eq_Nil_conv)

lemma strip_prefix_append:
  "set p \<inter> set ws = {} \<Longrightarrow> strip_prefix p (s @ ws) = map_option (\<lambda>r. r @ ws) (strip_prefix p s)"
proof (induction p s rule: strip_prefix.induct)
  case (1 s) show ?case by simp
next
  case (2 p ps)
  then show ?case by (cases ws) auto
next
  case (3 p ps c cs)
  then show ?case by auto
qed

lemma ws_not_digit: "json_ws c \<Longrightarrow> \<not> is_digit c"
  by (auto simp: json_ws_def is_digit_def)

lemma ws_not_quote: "json_ws c \<Longrightarrow> c \<noteq> CHR 0x22"
  by (auto simp: json_ws_def)

lemma ws_not_letter: "json_ws c \<Longrightarrow> c \<notin> set ''truefalsn''"
  by (auto simp: json_ws_def)


lemma lex_digits_append:
  assumes ws: "list_all json_ws ws"
  shows "lex_digits neg (u @ ws) = then_more ws (lex_digits neg u)"
proof -
  have nd: "\<forall>x\<in>set ws. \<not> is_digit x" using ws by (auto simp: list_all_iff ws_not_digit)
  note sp = span_append_outside[OF nd, of u]
  have h: "(dropWhile is_digit u @ ws \<noteq> [] \<and> hd (dropWhile is_digit u @ ws) \<in> set ''.eE'')
       = (dropWhile is_digit u \<noteq> [] \<and> hd (dropWhile is_digit u) \<in> set ''.eE'')"
  proof (cases "dropWhile is_digit u")
    case Nil
    note dn = this
    show ?thesis
    proof (cases ws)
      case Nil then show ?thesis unfolding dn by simp
    next
      case (Cons w ws')
      with ws have "json_ws w" by simp
      then have "w \<notin> set ''.eE''" by (auto simp: json_ws_def)
      then show ?thesis unfolding dn Cons by simp
    qed
  next
    case (Cons a list) then show ?thesis by simp
  qed
  show ?thesis
    unfolding lex_digits_def Let_def then_more_def conjunct1[OF sp] conjunct2[OF sp] h by simp
qed

lemma lex_string_append:
  assumes ws: "list_all json_ws ws"
  shows "lex_string (cs @ ws) = then_more ws (lex_string cs)"
proof (cases "dropWhile string_char cs")
  case Nil
  then have all: "\<forall>x\<in>set cs. string_char x" by (simp add: dropWhile_eq_Nil_conv)
  then have d: "dropWhile string_char (cs @ ws) = dropWhile string_char ws"
    by (simp add: dropWhile_append2)
  have "\<And>q r. dropWhile string_char ws = q # r \<Longrightarrow> q \<noteq> CHR 0x22"
  proof -
    fix q r assume a: "dropWhile string_char ws = q # r"
    then have "q \<in> set ws" by (metis list.set_intros(1) set_dropWhileD)
    with ws have "json_ws q" by (simp add: list_all_iff)
    then show "q \<noteq> CHR 0x22" by (rule ws_not_quote)
  qed
  then show ?thesis unfolding lex_string_def then_more_def d Nil by (auto split: list.splits)
next
  case (Cons q r)
  then have ex: "\<exists>x\<in>set cs. \<not> string_char x"
    by (metis dropWhile_eq_Nil_conv list.distinct(1))
  then obtain x where x: "x \<in> set cs" "\<not> string_char x" by blast
  have "takeWhile string_char (cs @ ws) = takeWhile string_char cs"
    using x by (simp add: takeWhile_append1)
  moreover have "dropWhile string_char (cs @ ws) = dropWhile string_char cs @ ws"
    using x by (simp add: dropWhile_append1)
  ultimately show ?thesis by (simp add: lex_string_def then_more_def Cons)
qed

lemma lex_literal_append:
  assumes ws: "list_all json_ws ws" and p: "set p \<subseteq> set ''truefalsn''"
  shows "lex_literal t p (cs @ ws) = then_more ws (lex_literal t p cs)"
proof -
  have "set p \<inter> set ws = {}" using ws p ws_not_letter by (fastforce simp: list_all_iff)
  then show ?thesis
    by (simp add: lex_literal_def then_more_def strip_prefix_append option.map_comp comp_def)
qed

lemma next_token_append:
  assumes ws: "list_all json_ws ws"
  shows "next_token ((c # cs) @ ws) = then_more ws (next_token (c # cs))"
proof -
  have n: "lex_digits False (c # cs @ ws) = then_more ws (lex_digits False (c # cs))"
    using lex_digits_append[OF ws, of False "c # cs"] by simp
  have e: "\<And>t r. then_more ws (Some (t, r)) = Some (t, r @ ws)" "then_more ws None = None"
    by (simp_all add: then_more_def)
  show ?thesis
    by (simp add: lex_string_append[OF ws] lex_digits_append[OF ws] n lex_literal_append[OF ws] e)
qed

lemma tokenize_blank: "dropWhile json_ws s = [] \<Longrightarrow> tokenize s = Some []"
  by (subst tokenize.simps) (simp only: list.case)

lemma tokenize_token:
  "dropWhile json_ws s = c # cs \<Longrightarrow>
     tokenize s = (case next_token (c # cs) of None \<Rightarrow> None
                   | Some (t, r) \<Rightarrow> map_option ((#) t) (tokenize r))"
  by (subst tokenize.simps) (simp only: list.case)

lemma tokenize_ws_prefix: "list_all json_ws ws \<Longrightarrow> tokenize (ws @ s) = tokenize s"
  by (subst tokenize.simps, subst (2) tokenize.simps) (simp only: dropWhile_ws_prefix)

lemma tokenize_ws_suffix: "list_all json_ws ws \<Longrightarrow> tokenize (s @ ws) = tokenize s"
proof (induction s rule: tokenize.induct)
  case (1 s)
  note ws = "1.prems"
  show ?case
  proof (cases "dropWhile json_ws s")
    case Nil
    then have "dropWhile json_ws (s @ ws) = []" by (simp only: dropWhile_ws_suffix[OF ws]) simp
    then show ?thesis by (simp only: tokenize_blank Nil)
  next
    case (Cons c cs)
    then have d: "dropWhile json_ws (s @ ws) = (c # cs) @ ws"
      by (simp only: dropWhile_ws_suffix[OF ws]) simp
    have d': "dropWhile json_ws (s @ ws) = c # (cs @ ws)" using d by simp
    have n: "next_token (c # (cs @ ws)) = then_more ws (next_token (c # cs))"
      using next_token_append[OF ws, of c cs] by (simp only: append_Cons)
    show ?thesis
    proof (cases "next_token (c # cs)")
      case None
      then show ?thesis
        by (simp only: tokenize_token[OF d'] tokenize_token[OF Cons] n then_more_def option.map option.case)
    next
      case (Some x)
      obtain t r where x: "x = (t, r)" by (cases x)
      have ih: "tokenize (r @ ws) = tokenize r"
        using "1.IH"[OF Cons Some x[symmetric] ws] .
      show ?thesis
        by (simp only: tokenize_token[OF d'] tokenize_token[OF Cons] n then_more_def Some x
              option.map option.case prod.case ih)
    qed
  qed
qed

lemma next_token_start: "next_token (c # cs) = Some x \<Longrightarrow> token_start c"
  by (simp add: token_start_def is_digit_def split: if_splits)

lemma token_start_not_space: "token_start c \<Longrightarrow> \<not> js_space c \<and> c \<noteq> CHR 0x60"
  unfolding token_start_def js_space_def by (elim disjE; simp) auto

lemma next_token_first: "next_token (c # cs) = Some x \<Longrightarrow> \<not> js_space c \<and> c \<noteq> CHR 0x60"
  by (blast dest: next_token_start token_start_not_space)

lemma digit_not_backquote: "is_digit c \<Longrightarrow> c \<noteq> CHR 0x60"
  by (auto simp: is_digit_def)

lemma last_digits: "takeWhile is_digit u \<noteq> [] \<Longrightarrow> last (takeWhile is_digit u) \<noteq> CHR 0x60"
proof -
  assume n: "takeWhile is_digit u \<noteq> []"
  then have "last (takeWhile is_digit u) \<in> set (takeWhile is_digit u)" by (rule last_in_set)
  then have "is_digit (last (takeWhile is_digit u))" by (rule set_takeWhileD[THEN conjunct2])
  then show ?thesis by (rule digit_not_backquote)
qed

lemma next_token_last:
  "next_token s = Some (t, r) \<Longrightarrow> \<exists>p. s = p @ r \<and> p \<noteq> [] \<and> last p \<noteq> CHR 0x60"
proof (cases s)
  case Nil
  then show "next_token s = Some (t, r) \<Longrightarrow> \<exists>p. s = p @ r \<and> p \<noteq> [] \<and> last p \<noteq> CHR 0x60" by simp
next
  case (Cons c cs)
  assume a: "next_token s = Some (t, r)"
  then have c: "c \<noteq> CHR 0x60" unfolding Cons by (blast dest: next_token_first)
  consider (punct) "r = cs"
    | (str) "lex_string cs = Some (t, r)"
    | (neg) "lex_digits True cs = Some (t, r)"
    | (num) "lex_digits False (c # cs) = Some (t, r)"
    | (lit) t' p where "p \<in> {''rue'', ''alse'', ''ull''}" "lex_literal t' p cs = Some (t, r)"
    using a unfolding Cons next_token.simps
    by (simp split: if_splits) blast+
  then show ?thesis
  proof cases
    case punct
    then have "s = [c] @ r" by (simp add: Cons)
    with c show ?thesis by (metis last.simps list.distinct(1))
  next
    case str
    from lex_string_eq[OF str] have "s = (c # takeWhile string_char cs @ [CHR 0x22]) @ r"
      by (simp add: Cons)
    moreover have "last (c # takeWhile string_char cs @ [CHR 0x22]) \<noteq> CHR 0x60" by simp
    ultimately show ?thesis by blast
  next
    case neg
    from lex_digits_eq[OF neg] have e: "s = (c # takeWhile is_digit cs) @ r"
      and n: "takeWhile is_digit cs \<noteq> []" by (simp_all add: Cons)
    from n have "last (c # takeWhile is_digit cs) \<noteq> CHR 0x60" by (simp add: last_digits)
    with e show ?thesis by blast
  next
    case num
    from lex_digits_eq[OF num] have e: "s = takeWhile is_digit (c # cs) @ r"
      and n: "takeWhile is_digit (c # cs) \<noteq> []" unfolding Cons by blast+
    from n have "last (takeWhile is_digit (c # cs)) \<noteq> CHR 0x60" by (rule last_digits)
    with e n show ?thesis by blast
  next
    case lit
    from lex_literal_eq[OF lit(2)] have e: "s = (c # p) @ r" by (simp add: Cons)
    from lit(1) have "last (c # p) \<noteq> CHR 0x60" by auto
    with e show ?thesis by blast
  qed
qed

lemma tokenize_last: "tokenize s = Some ts \<Longrightarrow> s = [] \<or> last s \<noteq> CHR 0x60"
proof (induction s arbitrary: ts rule: tokenize.induct)
  case (1 s)
  show ?case
  proof (cases "dropWhile json_ws s")
    case Nil
    then have all: "\<forall>x\<in>set s. json_ws x" by (simp add: dropWhile_eq_Nil_conv)
    show ?thesis
    proof (cases "s = []")
      case False
      then have "last s \<in> set s" by (rule last_in_set)
      with all have "json_ws (last s)" by blast
      then show ?thesis by (auto simp: json_ws_def)
    qed simp
  next
    case (Cons c cs)
    from "1.prems" obtain t r ts' where n: "next_token (c # cs) = Some (t, r)"
      and tr: "tokenize r = Some ts'"
      unfolding tokenize_token[OF Cons] by (auto split: option.splits)
    from next_token_last[OF n] obtain p where p: "c # cs = p @ r" "p \<noteq> []" "last p \<noteq> CHR 0x60"
      by blast
    have s: "s = takeWhile json_ws s @ p @ r"
      using takeWhile_dropWhile_id[of json_ws s] Cons p(1) by simp
    from "1.IH"[OF Cons n refl tr] have r: "r = [] \<or> last r \<noteq> CHR 0x60" .
    have "last s \<noteq> CHR 0x60"
    proof (cases "r = []")
      case True
      with s have "s = takeWhile json_ws s @ p" by simp
      then have "last s = last p" using p(2) by (metis last_appendR)
      with p(3) show ?thesis by simp
    next
      case False
      with s have "last s = last r" by (metis append_assoc last_appendR)
      with r False show ?thesis by simp
    qed
    then show ?thesis by simp
  qed
qed

lemma tokenize_first:
  "tokenize s = Some ts \<Longrightarrow> ts \<noteq> [] \<Longrightarrow>
     \<exists>c cs. dropWhile json_ws s = c # cs \<and> \<not> js_space c \<and> c \<noteq> CHR 0x60"
proof (cases "dropWhile json_ws s")
  case Nil
  assume "tokenize s = Some ts" "ts \<noteq> []"
  with tokenize_blank[OF Nil] show ?thesis by simp
next
  case (Cons c cs)
  assume a: "tokenize s = Some ts"
  then obtain x where "next_token (c # cs) = Some x"
    unfolding tokenize_token[OF Cons] by (auto split: option.splits)
  from next_token_first[OF this] Cons show ?thesis by blast
qed

lemma parse_value_empty: "parse_value n [] = None"
  by (cases n) simp_all

lemma json_parse_tokens: "json_parse s = Some v \<Longrightarrow> \<exists>ts. tokenize s = Some ts \<and> ts \<noteq> []"
  by (auto simp: json_parse_def parse_value_empty split: option.splits)

lemma json_parse_ws: 
  "list_all json_ws ws1 \<Longrightarrow> list_all json_ws ws2 \<Longrightarrow> json_parse (ws1 @ s @ ws2) = json_parse s"
  by (simp add: json_parse_def tokenize_ws_prefix tokenize_ws_suffix)

lemma json_parse_reads_json: "reads_json json_parse"
  unfolding reads_json_def
proof (intro conjI allI impI)
  fix ws1 s ws2 assume "list_all json_ws ws1 \<and> list_all json_ws ws2"
  then show "json_parse (ws1 @ s @ ws2) = json_parse s" by (simp add: json_parse_ws)
next
  fix s v assume a: "json_parse s = Some v"
  then obtain ts where ts: "tokenize s = Some ts" "ts \<noteq> []" by (blast dest: json_parse_tokens)
  then show "\<exists>c cs. dropWhile json_ws s = c # cs \<and> \<not> js_space c \<and> c \<noteq> CHR 0x60"
    by (rule tokenize_first)
  from ts this show "last s \<noteq> CHR 0x60" using tokenize_last[OF ts(1)] by auto
qed

lemma json_ws_js_space: "json_ws c \<Longrightarrow> js_space c"
  by (auto simp: json_ws_def js_space_def)

lemma dropWhile_js_space:
  "dropWhile json_ws s = c # cs \<Longrightarrow> \<not> js_space c \<Longrightarrow> dropWhile js_space s = c # cs"
  by (induction s) (auto simp: json_ws_js_space split: if_splits)

lemma strip_fence_fenced:
  assumes ws1: "list_all js_space ws1" and s: "dropWhile js_space s = c # cs"
  shows "strip_fence (fenced ws1 s ws2) = dropWhile js_space s @ ws2"
proof -
  have "c \<in> set s" using s by (metis list.set_intros(1) set_dropWhileD)
  moreover have "\<not> js_space c" using s by (metis hd_dropWhile list.sel(1) list.distinct(1))
  ultimately have d: "dropWhile js_space (s @ ws2 @ fence_close) = dropWhile js_space s @ ws2 @ fence_close"
    by (simp add: dropWhile_append1)
  have "dropWhile js_space (ws1 @ s @ ws2 @ fence_close) = dropWhile js_space (s @ ws2 @ fence_close)"
    using ws1 by (simp add: dropWhile_append2 list_all_iff)
  with d have r: "dropWhile js_space (drop (length fence_open) (fenced ws1 s ws2))
      = (dropWhile js_space s @ ws2) @ fence_close"
    by (simp add: fenced_def)
  have p: "prefix fence_open (fenced ws1 s ws2)" by (simp add: fenced_def)
  show ?thesis
    unfolding strip_fence_def Let_def r using p by (simp add: suffix_def)
qed

lemma strip_fence_plain:
  assumes "s \<noteq> []" and "hd s \<noteq> CHR 0x60" and "last s \<noteq> CHR 0x60"
  shows "strip_fence s = s"
proof -
  have "\<not> prefix fence_open s"
  proof
    assume "prefix fence_open s"
    then obtain r where "s = fence_open @ r" by (auto simp: prefix_def)
    then have "hd s = CHR 0x60" by (simp add: fence_open_def)
    with assms(2) show False by simp
  qed
  moreover have "\<not> suffix fence_close s"
  proof
    assume "suffix fence_close s"
    then obtain r where "s = r @ fence_close" by (auto simp: suffix_def)
    then have "last s = CHR 0x60" by (simp add: fence_close_def)
    with assms(3) show False by simp
  qed
  ultimately show ?thesis by (simp add: strip_fence_def)
qed

lemma strip_fence_open_only:
  assumes ws1: "list_all js_space ws1" and s: "dropWhile js_space s = c # cs"
    and l: "last s \<noteq> CHR 0x60"
  shows "strip_fence (fence_open @ ws1 @ s) = dropWhile js_space s"
proof -
  have d: "dropWhile js_space (ws1 @ s) = dropWhile js_space s"
    using ws1 by (simp add: dropWhile_append2 list_all_iff)
  have "s = takeWhile js_space s @ dropWhile js_space s" by simp
  then have "last s = last (dropWhile js_space s)" using s by (metis last_appendR list.distinct(1))
  with l have l': "last (dropWhile js_space s) \<noteq> CHR 0x60" by simp
  have ns: "\<not> suffix fence_close (dropWhile js_space s)"
  proof
    assume "suffix fence_close (dropWhile js_space s)"
    then obtain r where "dropWhile js_space s = r @ fence_close" by (auto simp: suffix_def)
    then have "last (dropWhile js_space s) = CHR 0x60" by (simp add: fence_close_def)
    with l' show False by simp
  qed
  have p: "prefix fence_open (fence_open @ ws1 @ s)" by simp
  have r: "dropWhile js_space (drop (length fence_open) (fence_open @ ws1 @ s)) = dropWhile js_space s"
    using d by simp
  show ?thesis unfolding strip_fence_def Let_def r using p ns by simp
qed

lemma strip_fence_close_only:
  assumes "s \<noteq> []" and "hd s \<noteq> CHR 0x60"
  shows "strip_fence (s @ ws2 @ fence_close) = s @ ws2"
proof -
  have "\<not> prefix fence_open (s @ ws2 @ fence_close)"
  proof
    assume "prefix fence_open (s @ ws2 @ fence_close)"
    then obtain r where "s @ ws2 @ fence_close = fence_open @ r" by (auto simp: prefix_def)
    then have "hd (s @ ws2 @ fence_close) = CHR 0x60" by (simp add: fence_open_def)
    with assms show False by simp
  qed
  moreover have "suffix fence_close ((s @ ws2) @ fence_close)" by (simp add: suffix_def)
  ultimately show ?thesis by (simp add: strip_fence_def)
qed

lemma structured_stage_result:
  assumes "structured st" and "safeJsonParse P (text_or_empty t) = safeJsonParse P (text_or_empty t')"
  shows "stage_result P st t = stage_result P st t'"
  using assms
  by (cases st)
     (simp_all add: structured_def stage_result_def analyzeKeywords_result_def
        findTopCompetitorArticles_result_def createCompositeArticle_result_def
        generateSocialMediaPosts_result_def analyzePerformanceData_result_def)

lemma reads_json_ws:
  assumes "reads_json P" and "list_all json_ws a" and "list_all json_ws b"
  shows "P (a @ x @ b) = P x"
proof -
  from assms(1) have "\<forall>ws1 s ws2. list_all json_ws ws1 \<and> list_all json_ws ws2 \<longrightarrow> P (ws1 @ s @ ws2) = P s"
    unfolding reads_json_def by (rule conjunct1)
  then have "list_all json_ws a \<and> list_all json_ws b \<longrightarrow> P (a @ x @ b) = P x" by blast
  with assms(2,3) show ?thesis by simp
qed

lemma reads_json_ends:
  assumes "reads_json P" and v: "P s = Some v"
  shows "(\<exists>c cs. dropWhile json_ws s = c # cs \<and> \<not> js_space c \<and> c \<noteq> CHR 0x60) \<and> last s \<noteq> CHR 0x60"
proof -
  from assms(1) have "\<forall>s v. P s = Some v \<longrightarrow>
           (\<exists>c cs. dropWhile json_ws s = c # cs \<and> \<not> js_space c \<and> c \<noteq> CHR 0x60)
           \<and> last s \<noteq> CHR 0x60"
    unfolding reads_json_def by (rule conjunct2)
  then have "P s = Some v \<longrightarrow>
           (\<exists>c cs. dropWhile json_ws s = c # cs \<and> \<not> js_space c \<and> c \<noteq> CHR 0x60)
           \<and> last s \<noteq> CHR 0x60" by blast
  with v show ?thesis by (rule rev_mp)
qed

text \<open>
  Claim C7, as the code has it. The fence that the normalizer strips is the opening
  marker with the tag \<^verbatim>\<open>json\<close>, followed by any whitespace, and three backquotes that
  are the last characters of the text. For a text that holds valid JSON, the
  normalizer returns the same value for the text inside this fence (with JSON
  whitespace before the closing marker) as for the text alone, and so does every
  structured stage. The same holds when only the opening marker or only the closing
  marker is there.
\<close>

theorem fence_round_trip:
  assumes P: "reads_json P" and v: "P s = Some v"
    and ws1: "list_all js_space ws1" and ws2: "list_all json_ws ws2"
  shows "safeJsonParse P (fenced ws1 s ws2) = v \<and> safeJsonParse P s = v
    \<and> (structured st \<longrightarrow> stage_result P st (Some (fenced ws1 s ws2)) = stage_result P st (Some s))
    \<and> safeJsonParse P (fence_open @ ws1 @ s) = v
    \<and> safeJsonParse P (s @ ws2 @ fence_close) = v"
proof -
  from reads_json_ends[OF P v] obtain c cs
    where c: "dropWhile json_ws s = c # cs" and cs: "\<not> js_space c" and cb: "c \<noteq> CHR 0x60"
    and l: "last s \<noteq> CHR 0x60"
    by (elim conjE exE)
  have dj: "dropWhile js_space s = c # cs" using c cs by (rule dropWhile_js_space)
  have ne: "s \<noteq> []" using c by (cases s) simp_all
  have hd: "hd s \<noteq> CHR 0x60"
  proof (cases "json_ws (hd s)")
    case True then show ?thesis by (simp add: json_ws_def) (elim disjE; simp)
  next
    case False
    with ne c have "hd s = c" by (cases s) simp_all
    with cb show ?thesis by simp
  qed
  have plain: "strip_fence s = s" using ne hd l by (rule strip_fence_plain)
  have t: "list_all json_ws (takeWhile json_ws s)"
    by (simp add: list_all_iff) (metis set_takeWhileD)
  have "P (dropWhile json_ws s) = P (takeWhile json_ws s @ dropWhile json_ws s @ [])"
    by (rule reads_json_ws[OF P t, symmetric]) simp
  also have "\<dots> = P s" by simp
  finally have core: "P (dropWhile json_ws s) = Some v" using v by simp
  have "P (dropWhile json_ws s @ ws2) = P ([] @ dropWhile json_ws s @ ws2)" by simp
  also have "\<dots> = P (dropWhile json_ws s)" by (rule reads_json_ws[OF P _ ws2]) simp
  finally have "P (dropWhile json_ws s @ ws2) = Some v" using core by simp
  then have "P (dropWhile js_space s @ ws2) = Some v" by (simp only: dj c)
  then have f: "P (strip_fence (fenced ws1 s ws2)) = Some v"
    by (simp only: strip_fence_fenced[OF ws1 dj, of ws2])
  have 1: "safeJsonParse P (fenced ws1 s ws2) = v" using f by (simp add: safeJsonParse_def)
  have 2: "safeJsonParse P s = v" using v plain by (simp add: safeJsonParse_def)
  have 3: "structured st \<longrightarrow> stage_result P st (Some (fenced ws1 s ws2)) = stage_result P st (Some s)"
  proof
    assume st: "structured st"
    show "stage_result P st (Some (fenced ws1 s ws2)) = stage_result P st (Some s)"
      by (rule structured_stage_result[OF st]) (simp add: text_or_empty_def 1 2)
  qed
  have "P (dropWhile js_space s) = Some v" using core by (simp only: dj c)
  then have "P (strip_fence (fence_open @ ws1 @ s)) = Some v"
    by (simp only: strip_fence_open_only[OF ws1 dj l])
  then have 4: "safeJsonParse P (fence_open @ ws1 @ s) = v" by (simp add: safeJsonParse_def)
  have "P (s @ ws2) = P ([] @ s @ ws2)" by simp
  also have "\<dots> = P s" by (rule reads_json_ws[OF P _ ws2]) simp
  finally have "P (s @ ws2) = Some v" using v by simp
  then have "P (strip_fence (s @ ws2 @ fence_close)) = Some v"
    by (simp only: strip_fence_close_only[OF ne hd])
  then have 5: "safeJsonParse P (s @ ws2 @ fence_close) = v" by (simp add: safeJsonParse_def)
  from 1 2 3 4 5 show ?thesis by (intro conjI)
qed

theorem fence_round_trip_witness:
  \<open>safeJsonParse json_parse (fenced [CHR 0x0A] ''{"x":"a","facebook":"b","linkedin":"c","hashtags":["#d"]}'' [CHR 0x0A])
     = JObj [(''x'', JStr ''a''), (''facebook'', JStr ''b''), (''linkedin'', JStr ''c''), (''hashtags'', JArr [JStr ''#d''])]
   \<and> stage_result json_parse GenerateSocialMediaPosts
        (Some (fenced [CHR 0x0A] ''{"x":"a","facebook":"b","linkedin":"c","hashtags":["#d"]}'' [CHR 0x0A]))
     = stage_result json_parse GenerateSocialMediaPosts
        (Some ''{"x":"a","facebook":"b","linkedin":"c","hashtags":["#d"]}'')\<close>
proof -
  let ?s = \<open>''{"x":"a","facebook":"b","linkedin":"c","hashtags":["#d"]}''\<close>
  let ?v = "JObj [(''x'', JStr ''a''), (''facebook'', JStr ''b''), (''linkedin'', JStr ''c''), (''hashtags'', JArr [JStr ''#d''])]"
  have v: "json_parse ?s = Some ?v" by code_simp
  have w1: "list_all js_space [CHR 0x0A]" by (simp add: js_space_def)
  have w2: "list_all json_ws [CHR 0x0A]" by (simp add: json_ws_def)
  have st: "structured GenerateSocialMediaPosts" by (simp add: structured_def)
  from fence_round_trip[OF json_parse_reads_json v w1 w2, of GenerateSocialMediaPosts] st
  show ?thesis by blast
qed

text \<open>
  The claim as stated speaks of code-fence markers of any kind. A fence that opens
  without the tag is left in place, and so is a closing marker that a line feed follows;
  for both the normalizer returns null although the text inside is valid JSON.
\<close>

theorem other_fences_counterexample:
  \<open>safeJsonParse json_parse ''{"a":1}'' = JObj [(''a'', JNum 1)]
   \<and> strip_fence (fence_close @ [CHR 0x0A] @ ''{"a":1}'' @ [CHR 0x0A] @ fence_close)
       = fence_close @ [CHR 0x0A] @ ''{"a":1}'' @ [CHR 0x0A]
   \<and> safeJsonParse json_parse (fence_close @ [CHR 0x0A] @ ''{"a":1}'' @ [CHR 0x0A] @ fence_close) = JNull
   \<and> strip_fence (fence_open @ [CHR 0x0A] @ ''{"a":1}'' @ [CHR 0x0A] @ fence_close @ [CHR 0x0A])
       = ''{"a":1}'' @ [CHR 0x0A] @ fence_close @ [CHR 0x0A]
   \<and> safeJsonParse json_parse
        (fence_open @ [CHR 0x0A] @ ''{"a":1}'' @ [CHR 0x0A] @ fence_close @ [CHR 0x0A]) = JNull\<close>
  by code_simp


section \<open>Properties of the workflow components\<close>

lemma failed_cases:
  "failed r \<longleftrightarrow> r = Rejected \<or> (\<exists>v. r = Resolved v \<and> \<not> truthy v)"
  by (cases r) (simp_all add: failed_def)

text \<open>
  Claim C6. In \<^verbatim>\<open>handleGenerateArticle\<close> the request for social posts is issued only
  after the request for the article has returned a truthy article, and it is the
  second of exactly two calls; when the article request throws or returns null no
  social request is issued; and when the social request returns null or throws, the
  article that was just stored stays and the social posts stay null.
\<close>

theorem social_request_after_article:
  assumes h: "handleGenerateArticle api s = (s', calls)"
  shows "(\<forall>a. Call_generateSocialMediaPosts a \<in> set calls \<longrightarrow>
            api (Call_generateFullArticle (draft s)) = Resolved a \<and> truthy a
            \<and> calls = [Call_generateFullArticle (draft s), Call_generateSocialMediaPosts a])
       \<and> (failed (api (Call_generateFullArticle (draft s))) \<longrightarrow> \<not> list_ex is_social_call calls)
       \<and> (\<forall>a. truthy (draft s) \<and> api (Call_generateFullArticle (draft s)) = Resolved a \<and> truthy a
              \<and> failed (api (Call_generateSocialMediaPosts a))
            \<longrightarrow> fullArticle s' = a \<and> socialPosts s' = JNull)"
proof (intro conjI allI impI)
  fix a assume "Call_generateSocialMediaPosts a \<in> set calls"
  with h show "api (Call_generateFullArticle (draft s)) = Resolved a"
    and "truthy a"
    and "calls = [Call_generateFullArticle (draft s), Call_generateSocialMediaPosts a]"
    by (auto simp: handleGenerateArticle_def Let_def split: if_splits outcome.splits)
next
  assume "failed (api (Call_generateFullArticle (draft s)))"
  with h show "\<not> list_ex is_social_call calls"
    by (auto simp: handleGenerateArticle_def Let_def failed_cases split: if_splits outcome.splits)
next
  fix a assume a: "truthy (draft s) \<and> api (Call_generateFullArticle (draft s)) = Resolved a \<and> truthy a
              \<and> failed (api (Call_generateSocialMediaPosts a))"
  with h show "fullArticle s' = a" and "socialPosts s' = JNull"
    by (auto simp: handleGenerateArticle_def Let_def failed_cases split: if_splits outcome.splits)
qed

theorem social_request_after_article_witness:
  "snd (handleGenerateArticle helpful written)
     = [Call_generateFullArticle sample_draft, Call_generateSocialMediaPosts (JStr ''# Article'')]
   \<and> helpful (Call_generateFullArticle sample_draft) = Resolved (JStr ''# Article'')
   \<and> \<not> list_ex is_social_call (snd (handleGenerateArticle returning_null written))
   \<and> fullArticle (fst (handleGenerateArticle article_only written)) = JStr ''# Article''"
proof -
  let ?a = "JStr ''# Article''"
  have d: "draft written = sample_draft" "truthy sample_draft"
    by (simp_all add: written_def sample_draft_def)
  have m: "Call_generateSocialMediaPosts ?a \<in> set (snd (handleGenerateArticle helpful written))"
    by (simp add: handleGenerateArticle_def Let_def d helpful_def sample_posts_def)
  have 1: "helpful (Call_generateFullArticle sample_draft) = Resolved ?a
      \<and> snd (handleGenerateArticle helpful written)
          = [Call_generateFullArticle sample_draft, Call_generateSocialMediaPosts ?a]"
    using social_request_after_article[of helpful written "fst (handleGenerateArticle helpful written)"
        "snd (handleGenerateArticle helpful written)"] m d
    by simp
  have f: "failed (returning_null (Call_generateFullArticle (draft written)))"
    by (simp add: failed_def returning_null_def)
  have 2: "\<not> list_ex is_social_call (snd (handleGenerateArticle returning_null written))"
    using social_request_after_article[of returning_null written
        "fst (handleGenerateArticle returning_null written)"
        "snd (handleGenerateArticle returning_null written)"] f
    by simp
  have g: "truthy (draft written) \<and> article_only (Call_generateFullArticle (draft written)) = Resolved ?a
      \<and> truthy ?a \<and> failed (article_only (Call_generateSocialMediaPosts ?a))"
    by (simp add: d article_only_def failed_def)
  have 3: "fullArticle (fst (handleGenerateArticle article_only written)) = ?a"
    using social_request_after_article[of article_only written
        "fst (handleGenerateArticle article_only written)"
        "snd (handleGenerateArticle article_only written)"] g
    by simp
  from 1 2 3 show ?thesis by simp
qed

lemma handleReviseArticle_posts:
  "truthy (fullArticle s) \<Longrightarrow> \<not> blank (revisionPrompt s) \<Longrightarrow>
     socialPosts (fst (handleReviseArticle api s)) = JNull
     \<and> snd (handleReviseArticle api s) = [Call_reviseFullArticle (fullArticle s) (revisionPrompt s)]"
  by (simp add: handleReviseArticle_def Let_def split: outcome.splits)

lemma handleReviseArticle_keeps_or_clears:
  "socialPosts (fst (handleReviseArticle api s)) = socialPosts s
   \<or> socialPosts (fst (handleReviseArticle api s)) = JNull"
  by (simp add: handleReviseArticle_def Let_def split: outcome.splits)

lemma handleGenerateArticle_posts:
  assumes "handleGenerateArticle api s = (s', calls)" and "socialPosts s' \<noteq> JNull"
    and "socialPosts s' \<noteq> socialPosts s"
  shows "\<exists>a. calls = [Call_generateFullArticle (draft s), Call_generateSocialMediaPosts a]
           \<and> api (Call_generateSocialMediaPosts a) = Resolved (socialPosts s')"
  using assms
  by (auto simp: handleGenerateArticle_def Let_def split: if_splits outcome.splits)

lemma creation_step_posts:
  assumes st: "creation_step api ev s = (s', calls)" and n: "socialPosts s' \<noteq> JNull"
    and c: "socialPosts s' \<noteq> socialPosts s"
  shows "ev = GenerateArticle
       \<and> (\<exists>a. calls = [Call_generateFullArticle (draft s), Call_generateSocialMediaPosts a]
              \<and> api (Call_generateSocialMediaPosts a) = Resolved (socialPosts s'))"
proof (cases ev)
  case GenerateArticle
  with st have "handleGenerateArticle api s = (s', calls)" by (simp add: creation_step_def)
  from handleGenerateArticle_posts[OF this n c] GenerateArticle show ?thesis by simp
next
  case ReviseArticle
  with st have "s' = fst (handleReviseArticle api s)" by (simp add: creation_step_def)
  with handleReviseArticle_keeps_or_clears[of api s] n c show ?thesis by auto
next
  case (DraftArrives d)
  with st n show ?thesis by (auto simp: creation_step_def resetForDraft_def)
next
  case (TypeRevision t)
  with st c show ?thesis by (auto simp: creation_step_def)
next
  case (Copy k)
  with st c show ?thesis by (auto simp: creation_step_def)
next
  case CopyExpires
  with st c show ?thesis by (auto simp: creation_step_def)
qed

lemma creation_run_posts:
  "socialPosts s = JNull \<Longrightarrow> creation_run evs s = (s', calls) \<Longrightarrow> socialPosts s' \<noteq> JNull
     \<Longrightarrow> list_ex is_social_call calls"
proof (induction evs arbitrary: s calls)
  case Nil
  then show ?case by simp
next
  case (Cons e evs)
  obtain api ev where e: "e = (api, ev)" by (cases e)
  obtain s1 calls1 where 1: "creation_step api ev s = (s1, calls1)" by (cases "creation_step api ev s")
  obtain s2 calls2 where 2: "creation_run evs s1 = (s2, calls2)" by (cases "creation_run evs s1")
  from Cons.prems(2) e 1 2 have s': "s' = s2" and calls: "calls = calls1 @ calls2" by simp_all
  show ?case
  proof (cases "socialPosts s1 = JNull")
    case True
    from 2 s' have "creation_run evs s1 = (s', calls2)" by simp
    from Cons.IH[OF True this Cons.prems(3)] have "list_ex is_social_call calls2" .
    then show ?thesis by (simp add: calls)
  next
    case False
    with Cons.prems(1) have "socialPosts s1 \<noteq> socialPosts s" by simp
    from creation_step_posts[OF 1 False this] have "list_ex is_social_call calls1" by auto
    then show ?thesis by (simp add: calls)
  qed
qed

text \<open>
  Claim C5. Every invocation of \<^verbatim>\<open>handleReviseArticle\<close> that gets past its guard
  issues the revision request and leaves the social posts null, whatever the request
  returns. In any step of the component, social posts that are non-null afterwards and
  differ from those held before come from a generation step, as the answer to the
  social request that the step issued. A session that starts without social posts and
  ends with some has issued a social request.
\<close>

theorem revision_discards_social_posts:
  "(truthy (fullArticle s) \<and> \<not> blank (revisionPrompt s) \<longrightarrow>
      snd (handleReviseArticle api s) = [Call_reviseFullArticle (fullArticle s) (revisionPrompt s)]
      \<and> socialPosts (fst (handleReviseArticle api s)) = JNull)
   \<and> (creation_step api ev s = (s', calls) \<and> socialPosts s' \<noteq> JNull \<and> socialPosts s' \<noteq> socialPosts s \<longrightarrow>
      ev = GenerateArticle
      \<and> (\<exists>a. calls = [Call_generateFullArticle (draft s), Call_generateSocialMediaPosts a]
             \<and> api (Call_generateSocialMediaPosts a) = Resolved (socialPosts s')))
   \<and> (socialPosts s = JNull \<and> creation_run evs s = (s', calls) \<and> socialPosts s' \<noteq> JNull \<longrightarrow>
      list_ex is_social_call calls)"
  using handleReviseArticle_posts[of s api] creation_step_posts[of api ev s s' calls]
    creation_run_posts[of s evs s' calls]
  by blast

lemma revised_written:
  "handleReviseArticle helpful written =
     (written\<lparr>socialPosts := JNull, fullArticle := JStr ''# Revised'', revisionPrompt := []\<rparr>,
      [Call_reviseFullArticle (JStr ''# Article'') ''shorter''])"
  by (simp add: handleReviseArticle_def Let_def written_def helpful_def blank_def js_space_def)

lemma regenerated_written:
  "handleGenerateArticle helpful (fst (handleReviseArticle helpful written)) =
     (written\<lparr>fullArticle := JStr ''# Article'', revisionPrompt := []\<rparr>,
      [Call_generateFullArticle sample_draft, Call_generateSocialMediaPosts (JStr ''# Article'')])"
  by (simp add: revised_written)
     (simp add: handleGenerateArticle_def Let_def written_def helpful_def sample_draft_def sample_posts_def)

theorem revision_discards_social_posts_witness:
  "socialPosts written = sample_posts
   \<and> socialPosts (fst (handleReviseArticle helpful written)) = JNull
   \<and> snd (creation_step helpful GenerateArticle (fst (handleReviseArticle helpful written)))
       = [Call_generateFullArticle sample_draft, Call_generateSocialMediaPosts (JStr ''# Article'')]
   \<and> list_ex is_social_call
        (snd (creation_run [(helpful, GenerateArticle)] (fst (handleReviseArticle helpful written))))"
proof -
  let ?r = "fst (handleReviseArticle helpful written)"
  let ?g = "creation_step helpful GenerateArticle ?r"
  let ?run = "creation_run [(helpful, GenerateArticle)] ?r"
  have w: "truthy (fullArticle written) \<and> \<not> blank (revisionPrompt written)"
    by (simp add: written_def blank_def js_space_def)
  have 1: "socialPosts ?r = JNull"
    using revision_discards_social_posts[where s = written and api = helpful] w by blast
  have g: "?g = (written\<lparr>fullArticle := JStr ''# Article'', revisionPrompt := []\<rparr>,
      [Call_generateFullArticle sample_draft, Call_generateSocialMediaPosts (JStr ''# Article'')])"
    by (simp add: creation_step_def regenerated_written)
  have p: "socialPosts (fst ?g) \<noteq> JNull" "socialPosts (fst ?g) \<noteq> socialPosts ?r"
    by (simp_all add: g 1) (simp_all add: written_def sample_posts_def)
  have d: "draft ?r = sample_draft" by (simp add: revised_written) (simp add: written_def)
  have 2: "snd ?g = [Call_generateFullArticle sample_draft, Call_generateSocialMediaPosts (JStr ''# Article'')]"
    using revision_discards_social_posts[where s = ?r and api = helpful and ev = GenerateArticle
        and s' = "fst ?g" and calls = "snd ?g"] p
    by (simp add: g)
  have run: "?run = ?g" by (simp add: g)
  have 3: "list_ex is_social_call (snd ?run)"
    using revision_discards_social_posts[where s = ?r and s' = "fst ?run" and calls = "snd ?run"
        and evs = "[(helpful, GenerateArticle)]"] 1 p
    unfolding run by simp
  have 0: "socialPosts written = sample_posts" by (simp add: written_def)
  from 0 1 2 3 show ?thesis by simp
qed

text \<open>
  Claim C2, as the code has it. A handler clears, before its call, the slot that the call
  is to refill, and a failure does not bring the old content back. When the call of a
  stage throws or returns null, the state after the handler is the state before it with
  an error message set, the busy flag cleared, and: the social posts cleared, for a
  revision; the article, the social posts and the revision instruction cleared, for
  the generation of the article; the keyword analysis, the competitor articles, or the
  analysis cleared, for their stages; nothing else for the composite draft, where no
  draft is handed on. When the article has been written and the call for the social
  posts fails, the new article is kept, the social posts stay cleared, and a message is
  set only if the call threw.
\<close>

theorem failed_stage_state:
  "(truthy (fullArticle c) \<and> \<not> blank (revisionPrompt c)
      \<and> failed (api (Call_reviseFullArticle (fullArticle c) (revisionPrompt c))) \<longrightarrow>
        handleReviseArticle api c =
          (c\<lparr>socialPosts := JNull, isRevising := False,
             error := Some (if api (Call_reviseFullArticle (fullArticle c) (revisionPrompt c)) = Rejected
                            then Msg_revision_thrown else Msg_revision_null)\<rparr>,
           [Call_reviseFullArticle (fullArticle c) (revisionPrompt c)]))
   \<and> (truthy (draft c) \<and> failed (api (Call_generateFullArticle (draft c))) \<longrightarrow>
        handleGenerateArticle api c =
          (c\<lparr>fullArticle := JNull, socialPosts := JNull, revisionPrompt := [], isGenerating := False,
             error := Some (if api (Call_generateFullArticle (draft c)) = Rejected
                            then Msg_article_thrown else Msg_article_null)\<rparr>,
           [Call_generateFullArticle (draft c)]))
   \<and> (truthy (draft c) \<and> api (Call_generateFullArticle (draft c)) = Resolved art \<and> truthy art
      \<and> failed (api (Call_generateSocialMediaPosts art)) \<longrightarrow>
        handleGenerateArticle api c =
          (c\<lparr>fullArticle := art, socialPosts := JNull, revisionPrompt := [], isGenerating := False,
             error := (if api (Call_generateSocialMediaPosts art) = Rejected
                       then Some Msg_article_thrown else None)\<rparr>,
           [Call_generateFullArticle (draft c), Call_generateSocialMediaPosts art]))
   \<and> (\<not> blank (userUrl p)
      \<and> failed (api (Call_analyzeKeywords (userUrl p)
                  (filter (\<lambda>u. \<not> blank u) [competitorUrl1 p, competitorUrl2 p]))) \<longrightarrow>
        fst (handleAnalyzeKeywords api p) =
          p\<lparr>keywordAnalysis := JNull, p_stage := Idle,
            p_error := Some (if api (Call_analyzeKeywords (userUrl p)
                                  (filter (\<lambda>u. \<not> blank u) [competitorUrl1 p, competitorUrl2 p])) = Rejected
                             then Msg_keywords_thrown else Msg_keywords_null)\<rparr>)
   \<and> (\<not> blank (topic p) \<and> failed (api (Call_findTopCompetitorArticles (topic p))) \<longrightarrow>
        fst (handleFindArticles api p) =
          p\<lparr>competitorArticles := JNull, p_stage := Idle,
            p_error := Some (if api (Call_findTopCompetitorArticles (topic p)) = Rejected
                             then Msg_articles_thrown else Msg_articles_null)\<rparr>)
   \<and> (truthy (competitorArticles p) \<and> topic p \<noteq> []
      \<and> failed (api (Call_createCompositeArticle (topic p) (competitorArticles p))) \<longrightarrow>
        handleCreateCompositeArticle api p =
          (p\<lparr>p_stage := Idle,
             p_error := Some (if api (Call_createCompositeArticle (topic p) (competitorArticles p)) = Rejected
                              then Msg_draft_thrown else Msg_draft_null)\<rparr>,
           [Call_createCompositeArticle (topic p) (competitorArticles p)], None))
   \<and> (\<not> blank (articleUrl a) \<and> prefix ''http'' (articleUrl a)
      \<and> failed (api (Call_analyzePerformanceData (articleUrl a) (socialUrl a))) \<longrightarrow>
        fst (handleGenerateReport api a) =
          a\<lparr>analysis := JNull, a_isLoading := False,
            a_error := Some (if api (Call_analyzePerformanceData (articleUrl a) (socialUrl a)) = Rejected
                             then Msg_report_thrown else Msg_report_null)\<rparr>)"
proof (intro conjI impI)
  assume "truthy (fullArticle c) \<and> \<not> blank (revisionPrompt c)
      \<and> failed (api (Call_reviseFullArticle (fullArticle c) (revisionPrompt c)))"
  then show "handleReviseArticle api c =
          (c\<lparr>socialPosts := JNull, isRevising := False,
             error := Some (if api (Call_reviseFullArticle (fullArticle c) (revisionPrompt c)) = Rejected
                            then Msg_revision_thrown else Msg_revision_null)\<rparr>,
           [Call_reviseFullArticle (fullArticle c) (revisionPrompt c)])"
    by (auto simp: handleReviseArticle_def Let_def failed_cases)
next
  assume "truthy (draft c) \<and> failed (api (Call_generateFullArticle (draft c)))"
  then show "handleGenerateArticle api c =
          (c\<lparr>fullArticle := JNull, socialPosts := JNull, revisionPrompt := [], isGenerating := False,
             error := Some (if api (Call_generateFullArticle (draft c)) = Rejected
                            then Msg_article_thrown else Msg_article_null)\<rparr>,
           [Call_generateFullArticle (draft c)])"
    by (auto simp: handleGenerateArticle_def Let_def failed_cases)
next
  assume "truthy (draft c) \<and> api (Call_generateFullArticle (draft c)) = Resolved art \<and> truthy art
      \<and> failed (api (Call_generateSocialMediaPosts art))"
  then show "handleGenerateArticle api c =
          (c\<lparr>fullArticle := art, socialPosts := JNull, revisionPrompt := [], isGenerating := False,
             error := (if api (Call_generateSocialMediaPosts art) = Rejected
                       then Some Msg_article_thrown else None)\<rparr>,
           [Call_generateFullArticle (draft c), Call_generateSocialMediaPosts art])"
    by (auto simp: handleGenerateArticle_def Let_def failed_cases)
next
  assume "\<not> blank (userUrl p)
      \<and> failed (api (Call_analyzeKeywords (userUrl p)
                  (filter (\<lambda>u. \<not> blank u) [competitorUrl1 p, competitorUrl2 p])))"
  then show "fst (handleAnalyzeKeywords api p) =
          p\<lparr>keywordAnalysis := JNull, p_stage := Idle,
            p_error := Some (if api (Call_analyzeKeywords (userUrl p)
                                  (filter (\<lambda>u. \<not> blank u) [competitorUrl1 p, competitorUrl2 p])) = Rejected
                             then Msg_keywords_thrown else Msg_keywords_null)\<rparr>"
    unfolding handleAnalyzeKeywords_def Let_def failed_cases
    by (elim conjE disjE exE) simp_all
next
  assume "\<not> blank (topic p) \<and> failed (api (Call_findTopCompetitorArticles (topic p)))"
  then show "fst (handleFindArticles api p) =
          p\<lparr>competitorArticles := JNull, p_stage := Idle,
            p_error := Some (if api (Call_findTopCompetitorArticles (topic p)) = Rejected
                             then Msg_articles_thrown else Msg_articles_null)\<rparr>"
    by (auto simp: handleFindArticles_def Let_def failed_cases)
next
  assume "truthy (competitorArticles p) \<and> topic p \<noteq> []
      \<and> failed (api (Call_createCompositeArticle (topic p) (competitorArticles p)))"
  then show "handleCreateCompositeArticle api p =
          (p\<lparr>p_stage := Idle,
             p_error := Some (if api (Call_createCompositeArticle (topic p) (competitorArticles p)) = Rejected
                              then Msg_draft_thrown else Msg_draft_null)\<rparr>,
           [Call_createCompositeArticle (topic p) (competitorArticles p)], None)"
    by (auto simp: handleCreateCompositeArticle_def Let_def failed_cases)
next
  assume "\<not> blank (articleUrl a) \<and> prefix ''http'' (articleUrl a)
      \<and> failed (api (Call_analyzePerformanceData (articleUrl a) (socialUrl a)))"
  then show "fst (handleGenerateReport api a) =
          a\<lparr>analysis := JNull, a_isLoading := False,
            a_error := Some (if api (Call_analyzePerformanceData (articleUrl a) (socialUrl a)) = Rejected
                             then Msg_report_thrown else Msg_report_null)\<rparr>"
    by (auto simp: handleGenerateReport_def Let_def failed_cases)
qed

theorem failed_stage_state_witness:
  "handleReviseArticle returning_null written =
     (written\<lparr>socialPosts := JNull, error := Some Msg_revision_null\<rparr>,
      [Call_reviseFullArticle (JStr ''# Article'') ''shorter''])
   \<and> handleGenerateArticle rejecting written =
     (written\<lparr>fullArticle := JNull, socialPosts := JNull, revisionPrompt := [],
        error := Some Msg_article_thrown\<rparr>,
      [Call_generateFullArticle sample_draft])
   \<and> handleGenerateArticle article_only written =
     (written\<lparr>socialPosts := JNull, revisionPrompt := []\<rparr>,
      [Call_generateFullArticle sample_draft, Call_generateSocialMediaPosts (JStr ''# Article'')])
   \<and> fst (handleAnalyzeKeywords returning_null researched) =
       researched\<lparr>keywordAnalysis := JNull, p_error := Some Msg_keywords_null\<rparr>
   \<and> fst (handleFindArticles rejecting researched) =
       researched\<lparr>competitorArticles := JNull, p_error := Some Msg_articles_thrown\<rparr>
   \<and> handleCreateCompositeArticle returning_null researched =
       (researched\<lparr>p_error := Some Msg_draft_null\<rparr>,
        [Call_createCompositeArticle ''shoes'' (JArr [JObj [(''title'', JStr ''A'')]])], None)
   \<and> fst (handleGenerateReport rejecting reported) =
       reported\<lparr>analysis := JNull, a_error := Some Msg_report_thrown\<rparr>"
proof -
  have s: "article_only (Call_generateFullArticle (draft written)) = Resolved (JStr ''# Article'')"
    "failed (article_only (Call_generateSocialMediaPosts (JStr ''# Article'')))"
    "article_only (Call_generateSocialMediaPosts (JStr ''# Article'')) \<noteq> Rejected"
    by (simp_all add: article_only_def failed_def)
  have n: "\<And>c. failed (returning_null c)" "\<And>c. returning_null c \<noteq> Rejected"
    by (simp_all add: failed_def returning_null_def)
  have r: "\<And>c. failed (rejecting c)" "\<And>c. rejecting c = Rejected"
    by (simp_all add: failed_def rejecting_def)
  have w: "truthy (fullArticle written)" "\<not> blank (revisionPrompt written)" "truthy (draft written)"
    by (simp_all add: written_def sample_draft_def blank_def js_space_def)
  have p: "\<not> blank (userUrl researched)" "\<not> blank (topic researched)"
    "truthy (competitorArticles researched)" "topic researched \<noteq> []"
    by (simp_all add: researched_def blank_def js_space_def)
  have a: "\<not> blank (articleUrl reported)" "prefix ''http'' (articleUrl reported)"
    by (simp_all add: reported_def blank_def js_space_def)
  have 1: "handleReviseArticle returning_null written =
     (written\<lparr>socialPosts := JNull, error := Some Msg_revision_null\<rparr>,
      [Call_reviseFullArticle (JStr ''# Article'') ''shorter''])"
    using failed_stage_state[where c = written and api = returning_null] w n
    by (simp add: written_def)
  have 2: "handleGenerateArticle rejecting written =
     (written\<lparr>fullArticle := JNull, socialPosts := JNull, revisionPrompt := [],
        error := Some Msg_article_thrown\<rparr>,
      [Call_generateFullArticle sample_draft])"
    using failed_stage_state[where c = written and api = rejecting] w r
    by (simp add: written_def)
  have 7: "handleGenerateArticle article_only written =
     (written\<lparr>socialPosts := JNull, revisionPrompt := []\<rparr>,
      [Call_generateFullArticle sample_draft, Call_generateSocialMediaPosts (JStr ''# Article'')])"
    using failed_stage_state[where c = written and api = article_only and art = "JStr ''# Article''"] w s
    by (simp add: written_def)
  have 3: "fst (handleAnalyzeKeywords returning_null researched) =
       researched\<lparr>keywordAnalysis := JNull, p_error := Some Msg_keywords_null\<rparr>"
    using failed_stage_state[where p = researched and api = returning_null] p n
    by (simp add: researched_def)
  have 4: "fst (handleFindArticles rejecting researched) =
       researched\<lparr>competitorArticles := JNull, p_error := Some Msg_articles_thrown\<rparr>"
    using failed_stage_state[where p = researched and api = rejecting] p r
    by (simp add: researched_def)
  have 5: "handleCreateCompositeArticle returning_null researched =
       (researched\<lparr>p_error := Some Msg_draft_null\<rparr>,
        [Call_createCompositeArticle ''shoes'' (JArr [JObj [(''title'', JStr ''A'')]])], None)"
    using failed_stage_state[where p = researched and api = returning_null] p n
    by (simp add: researched_def)
  have 6: "fst (handleGenerateReport rejecting reported) =
       reported\<lparr>analysis := JNull, a_error := Some Msg_report_thrown\<rparr>"
    using failed_stage_state[where a = reported and api = rejecting] a r
    by (simp add: reported_def)
  from 1 2 7 3 4 5 6 show ?thesis by (intro conjI)
qed

text \<open>
  The claim as stated promises that a failed revision leaves the social posts intact and
  that a failed generation leaves the article intact. Both are null afterwards.
\<close>

theorem failed_revision_clears_posts_counterexample:
  "failed (returning_null (Call_reviseFullArticle (fullArticle written) (revisionPrompt written)))
   \<and> socialPosts written = sample_posts
   \<and> sample_posts \<noteq> JNull
   \<and> socialPosts (fst (handleReviseArticle returning_null written)) = JNull
   \<and> failed (rejecting (Call_generateFullArticle (draft written)))
   \<and> fullArticle written = JStr ''# Article''
   \<and> fullArticle (fst (handleGenerateArticle rejecting written)) = JNull"
  by (simp add: failed_def returning_null_def rejecting_def written_def sample_posts_def sample_draft_def
        handleReviseArticle_def handleGenerateArticle_def Let_def blank_def js_space_def)


section \<open>Properties of the CSV export\<close>

lemma replace_quotes_Nil: "replace_quotes [] = []"
  by (simp add: replace_quotes_def)

lemma replace_quotes_Cons:
  "replace_quotes (c # s) = (if c = CHR 0x22 then CHR 0x22 # CHR 0x22 # replace_quotes s else c # replace_quotes s)"
  by (simp add: replace_quotes_def)

lemma quotes_doubled_replace: "quotes_doubled (replace_quotes s)"
proof (induction s)
  case Nil
  show ?case by (simp add: replace_quotes_Nil)
next
  case (Cons c s)
  show ?case
  proof (cases "c = CHR 0x22")
    case True
    with Cons show ?thesis by (simp add: replace_quotes_Cons)
  next
    case False
    with Cons show ?thesis
      by (cases "replace_quotes s") (simp_all add: replace_quotes_Cons)
  qed
qed

lemma undouble_replace: "undouble (replace_quotes s) = s"
proof (induction s)
  case Nil
  show ?case by (simp add: replace_quotes_Nil)
next
  case (Cons c s)
  show ?case
  proof (cases "c = CHR 0x22")
    case True
    with Cons show ?thesis by (simp add: replace_quotes_Cons)
  next
    case False
    with Cons show ?thesis
      by (cases "replace_quotes s") (simp_all add: replace_quotes_Cons)
  qed
qed

lemma count_replace:
  "length (filter (\<lambda>c. c = CHR 0x22) (replace_quotes s)) = 2 * length (filter (\<lambda>c. c = CHR 0x22) s)"
  by (induction s) (simp_all add: replace_quotes_Nil replace_quotes_Cons)

lemma csvContent_sections:
  "csvContent f d = ''data:text/csv;charset=utf-8,'' @ render_sections (csv_sections f d)"
  by (simp add: csvContent_def render_sections_def csv_sections_def quoted_def comp_def)

lemma sublist_inside: "sublist x b \<Longrightarrow> sublist x (a @ b @ c)"
proof -
  assume "sublist x b"
  then obtain ps ss where "b = ps @ x @ ss" by (auto simp: sublist_def)
  then have "a @ b @ c = (a @ ps) @ x @ (ss @ c)" by simp
  then show ?thesis unfolding sublist_def by blast
qed

lemma sublist_concat_map: "x \<in> set xs \<Longrightarrow> sublist (g x) (concat (map g xs))"
proof -
  assume "x \<in> set xs"
  then obtain ys zs where "xs = ys @ x # zs" by (auto simp: in_set_conv_decomp)
  then have "concat (map g xs) = concat (map g ys) @ g x @ concat (map g zs)" by simp
  then show ?thesis unfolding sublist_def by blast
qed

lemma sublist_join: "x \<in> set xs \<Longrightarrow> sublist x (join sep xs)"
proof (induction sep xs rule: join.induct)
  case (1 sep)
  then show ?case by simp
next
  case (2 sep y)
  then show ?case by simp
next
  case (3 sep y z zs)
  show ?case
  proof (cases "x = y")
    case True
    then show ?thesis by simp
  next
    case False
    with 3 have "sublist x (join sep (z # zs))" by simp
    then have "sublist x ((y @ sep) @ join sep (z # zs) @ [])" by (rule sublist_inside)
    then show ?thesis by simp
  qed
qed

lemma summary_in_csv: "sublist (quoted (summary d)) (csvContent f d)"
proof -
  have "csvContent f d = (''data:text/csv;charset=utf-8,'' @ ''Summary'' @ nl) @ quoted (summary d)
      @ drop (length (''data:text/csv;charset=utf-8,'' @ ''Summary'' @ nl @ quoted (summary d))) (csvContent f d)"
    by (simp add: csvContent_def quoted_def)
  then show ?thesis unfolding sublist_def by blast
qed

lemma sublist_skip: "sublist x b \<Longrightarrow> sublist x (a @ b)"
  using sublist_inside[of x b a "[]"] by simp

lemma sublist_stop: "sublist x a \<Longrightarrow> sublist x (a @ b)"
  using sublist_inside[of x a "[]" b] by simp

lemma keyword_in_csv:
  assumes "kw \<in> set (keywordPerformance d)"
  shows "sublist (quoted (keyword kw)) (csvContent f d)"
proof -
  let ?g = "\<lambda>kw. dq @ replace_quotes (keyword kw) @ dq @ '','' @ f (estimatedPV kw) @ nl"
  have "sublist (?g kw) (concat (map ?g (keywordPerformance d)))"
    using assms by (rule sublist_concat_map)
  moreover have "sublist (quoted (keyword kw)) (?g kw)"
    using sublist_appendI[of "quoted (keyword kw)" "[]" "'','' @ f (estimatedPV kw) @ nl"]
    by (simp add: quoted_def)
  ultimately have h: "sublist (quoted (keyword kw)) (concat (map ?g (keywordPerformance d)))"
    by (rule sublist_order.order.trans[rotated])
  show ?thesis
    unfolding csvContent_def by (rule sublist_stop[OF h] | rule sublist_skip)+
qed

lemma action_in_csv:
  assumes "item \<in> set (actionPlan d)"
  shows "sublist (quoted (action item) @ '','' @ quoted (justification item)) (csvContent f d)"
proof -
  let ?row = "\<lambda>item. [dq @ replace_quotes (action item) @ dq, dq @ replace_quotes (justification item) @ dq]"
  have "join '','' (?row item) \<in> set (map (join '','') (map ?row (actionPlan d)))"
    using assms by simp
  then have "sublist (join '','' (?row item)) (join nl (map (join '','') (map ?row (actionPlan d))))"
    by (rule sublist_join)
  moreover have "join '','' (?row item) = quoted (action item) @ '','' @ quoted (justification item)"
    by (simp add: quoted_def)
  ultimately have h: "sublist (quoted (action item) @ '','' @ quoted (justification item))
      (join nl (map (join '','') (map ?row (actionPlan d))))"
    by simp
  show ?thesis
    unfolding csvContent_def by (rule h | rule sublist_skip)+
qed

text \<open>
  What holds of the export: its text is its header followed by exactly five sections,
  labelled Summary, Key Metrics, Traffic Sources, Keyword Performance and Action Plan
  in this order, and the summary, every keyword and every action with its justification
  stand in it between double quotes with their own double quotes doubled.
\<close>

lemma csv_export_sections:
  "csvContent f d = ''data:text/csv;charset=utf-8,'' @ render_sections (csv_sections f d)
   \<and> map fst (csv_sections f d)
       = [''Summary'', ''Key Metrics'', ''Traffic Sources'', ''Keyword Performance'', ''Action Plan'']
   \<and> sublist (quoted (summary d)) (csvContent f d)
   \<and> list_all (\<lambda>kw. sublist (quoted (keyword kw)) (csvContent f d)) (keywordPerformance d)
   \<and> list_all (\<lambda>item. sublist (quoted (action item) @ '','' @ quoted (justification item)) (csvContent f d))
        (actionPlan d)
   \<and> quoted s = dq @ replace_quotes s @ dq
   \<and> quotes_doubled (replace_quotes s)
   \<and> undouble (replace_quotes s) = s
   \<and> length (filter (\<lambda>c. c = CHR 0x22) (replace_quotes s)) = 2 * length (filter (\<lambda>c. c = CHR 0x22) s)"
proof (intro conjI)
  show "csvContent f d = ''data:text/csv;charset=utf-8,'' @ render_sections (csv_sections f d)"
    by (rule csvContent_sections)
  show "map fst (csv_sections f d)
       = [''Summary'', ''Key Metrics'', ''Traffic Sources'', ''Keyword Performance'', ''Action Plan'']"
    by (simp add: csv_sections_def)
  show "sublist (quoted (summary d)) (csvContent f d)" by (rule summary_in_csv)
  show "list_all (\<lambda>kw. sublist (quoted (keyword kw)) (csvContent f d)) (keywordPerformance d)"
    unfolding list_all_iff by (intro ballI) (rule keyword_in_csv)
  show "list_all (\<lambda>item. sublist (quoted (action item) @ '','' @ quoted (justification item)) (csvContent f d))
        (actionPlan d)"
    unfolding list_all_iff by (intro ballI) (rule action_in_csv)
  show "quoted s = dq @ replace_quotes s @ dq" by (simp add: quoted_def)
  show "quotes_doubled (replace_quotes s)" by (rule quotes_doubled_replace)
  show "undouble (replace_quotes s) = s" by (rule undouble_replace)
  show "length (filter (\<lambda>c. c = CHR 0x22) (replace_quotes s)) = 2 * length (filter (\<lambda>c. c = CHR 0x22) s)"
    by (rule count_replace)
qed

lemma csv_export_sections_example:
  "map fst (csv_sections sample_number sample_analysis)
     = [''Summary'', ''Key Metrics'', ''Traffic Sources'', ''Keyword Performance'', ''Action Plan'']
   \<and> sublist [CHR 0x22, CHR ''a'', CHR 0x22, CHR 0x22, CHR ''b'', CHR 0x22]
        (csvContent sample_number sample_analysis)
   \<and> sublist ([CHR 0x22, CHR 0x22, CHR 0x22, CHR ''k'', CHR 0x22] @ '',1200'')
        (csvContent sample_number sample_analysis)
   \<and> replace_quotes [CHR ''w'', CHR 0x22] = [CHR ''w'', CHR 0x22, CHR 0x22]"
proof -
  note t = csv_export_sections[of sample_number sample_analysis "[CHR ''w'', CHR 0x22]"]
  have q: "quoted (summary sample_analysis) = [CHR 0x22, CHR ''a'', CHR 0x22, CHR 0x22, CHR ''b'', CHR 0x22]"
    by (simp add: quoted_def sample_analysis_def dq_def replace_quotes_def)
  have c: "csvContent sample_number sample_analysis =
    ''data:text/csv;charset=utf-8,'' @ render_sections (csv_sections sample_number sample_analysis)"
    using t by blast
  have k: "sublist ([CHR 0x22, CHR 0x22, CHR 0x22, CHR ''k'', CHR 0x22] @ '',1200'')
        (''data:text/csv;charset=utf-8,'' @ render_sections (csv_sections sample_number sample_analysis))"
    by code_simp
  have r: "replace_quotes [CHR ''w'', CHR 0x22] = [CHR ''w'', CHR 0x22, CHR 0x22]"
    by (simp add: replace_quotes_def)
  from t q c k r show ?thesis by simp
qed

text \<open>
  Claim C8, at an input where the code departs from it. The name of a traffic source and
  the values of the key metrics are written as they are: a double quote in them stands
  alone in the text that \<open>downloadCSV\<close> encodes into the link, while the same quote in
  the keyword is doubled between quotes. The five sections are there, in order.
\<close>

theorem source_quote_not_doubled:
  "downloadCSV enc sample_number (Some quoted_source_analysis) ''report'' =
     Some \<lparr>href = enc (
        ''data:text/csv;charset=utf-8,Summary'' @ nl
        @ [CHR 0x22, CHR ''S'', CHR 0x22] @ nl @ nl
        @ ''Key Metrics'' @ nl
        @ ''Metric,Value'' @ nl
        @ ''Monthly PV,10,500'' @ nl
        @ ''Users,8,200'' @ nl
        @ ''Conversion Rate,1.5%'' @ nl
        @ ''Bounce Rate,4'' @ [CHR 0x22] @ nl @ nl
        @ ''Traffic Sources'' @ nl
        @ ''Source,Percentage'' @ nl
        @ [CHR ''a'', CHR 0x22, CHR ''b''] @ '',60%'' @ nl @ nl
        @ ''Keyword Performance'' @ nl
        @ ''Keyword,Estimated PV'' @ nl
        @ [CHR 0x22, CHR ''a'', CHR 0x22, CHR 0x22, CHR ''b'', CHR 0x22] @ '',1200'' @ nl @ nl
        @ ''Action Plan'' @ nl
        @ ''Action,Justification'' @ nl),
      download = ''report.csv''\<rparr>"
  by (simp add: downloadCSV_def csvContent_def quoted_source_analysis_def sample_number_def
        replace_quotes_def dq_def nl_def)

end
